theory Spec2Isabelle
  imports Main "HOL-Library.Sublist" "HOL-Library.Word"
begin

section \<open>Values\<close>

text \<open>
  The script \<^verbatim>\<open>scripts/fix_compile_commands.py\<close> works on what \<^verbatim>\<open>json.load\<close> returns:
  \<^verbatim>\<open>None\<close>, a bool, an int, a float, a str, a list or a dict with str keys. A float is
  its 64-bit pattern; the script never computes with one. A dict keeps its insertion order,
  so it is an association list; \<^verbatim>\<open>json.load\<close> never produces a repeated key. A
  \<^typ>\<open>char\<close> stands for one code point below 256.
\<close>

datatype json =
    JNull
  | JBool bool
  | JInt int
  | JFloat "64 word"
  | JStr string
  | JArr "json list"
  | JObj "(string \<times> json) list"

text \<open>The exceptions the script can raise, by class.\<close>

datatype error =
    FileNotFoundError
  | JSONDecodeError
  | TypeError
  | KeyError
  | AttributeError
  | ValueError
  | UnicodeDecodeError
  | RecursionError

section \<open>The str methods the script calls\<close>

text \<open>\<^verbatim>\<open>sub in s\<close> on two strs: \<^verbatim>\<open>sub\<close> occurs in \<^verbatim>\<open>s\<close> at some position.\<close>

fun str_contains :: "string \<Rightarrow> string \<Rightarrow> bool" where
  "str_contains sub [] = (sub = [])"
| "str_contains sub (c # cs) = (prefix sub (c # cs) \<or> str_contains sub cs)"

text \<open>
  \<^verbatim>\<open>s.replace(old, new)\<close>: one scan from the left; at an occurrence of \<^verbatim>\<open>old\<close> it
  emits \<^verbatim>\<open>new\<close> and continues behind the occurrence. With an empty \<^verbatim>\<open>old\<close>, \<^verbatim>\<open>new\<close>
  goes before every character and at the end.
\<close>

function str_replace_scan :: "string \<Rightarrow> string \<Rightarrow> string \<Rightarrow> string" where
  "str_replace_scan old new [] = []"
| "str_replace_scan old new (c # cs) =
     (if old \<noteq> [] \<and> prefix old (c # cs)
      then new @ str_replace_scan old new (drop (length old) (c # cs))
      else c # str_replace_scan old new cs)"
  by pat_completeness auto
termination
  by (relation "measure (\<lambda>(old, new, s). length s)") (auto simp: neq_Nil_conv)

definition str_replace :: "string \<Rightarrow> string \<Rightarrow> string \<Rightarrow> string" where
  "str_replace old new s =
     (if old = [] then new @ concat (map (\<lambda>c. c # new) s)
      else str_replace_scan old new s)"

text \<open>
  The characters \<^verbatim>\<open>str.split()\<close> treats as whitespace, among the code points below 256:
  tab, line feed, vertical tab, form feed, carriage return, the four separators
  0x1C to 0x1F, space, next line (0x85) and no-break space (0xA0).
\<close>

definition whitespace :: string where
  "whitespace = [CHR 0x09, CHR 0x0A, CHR 0x0B, CHR 0x0C, CHR 0x0D,
                 CHR 0x1C, CHR 0x1D, CHR 0x1E, CHR 0x1F, CHR 0x20, CHR 0x85, CHR 0xA0]"

definition is_space :: "char \<Rightarrow> bool" where
  "is_space c = (c \<in> set whitespace)"

text \<open>
  \<^verbatim>\<open>s.split()\<close> with no argument: skip whitespace, take the characters up to the next
  whitespace as one word, repeat. No word is empty.
\<close>

function str_split :: "string \<Rightarrow> string list" where
  "str_split [] = []"
| "str_split (c # cs) =
     (if is_space c then str_split cs
      else (c # takeWhile (\<lambda>x. \<not> is_space x) cs) # str_split (dropWhile (\<lambda>x. \<not> is_space x) cs))"
  by pat_completeness auto
termination
  by (relation "measure length") (auto simp: less_Suc_eq_le length_dropWhile_le)

text \<open>\<^verbatim>\<open>sep.join(words)\<close>.\<close>

fun str_join :: "string \<Rightarrow> string list \<Rightarrow> string" where
  "str_join sep [] = []"
| "str_join sep [w] = w"
| "str_join sep (w # v # ws) = w @ sep @ str_join sep (v # ws)"

text \<open>\<^verbatim>\<open>str(n)\<close> of a non-negative int, as the f-strings print a count.\<close>

definition digit :: "nat \<Rightarrow> char" where
  "digit d = ''0123456789'' ! d"

function str_nat :: "nat \<Rightarrow> string" where
  "str_nat n = (if n < 10 then [digit n] else str_nat (n div 10) @ [digit (n mod 10)])"
  by pat_completeness auto
termination
  by (relation "measure id") auto

declare str_nat.simps [simp del]

section \<open>Operations on parsed values\<close>

text \<open>\<^verbatim>\<open>len(x)\<close>: defined on a list, a dict and a str; a TypeError on the rest.\<close>

fun json_len :: "json \<Rightarrow> error + nat" where
  "json_len (JArr xs) = Inr (length xs)"
| "json_len (JObj kvs) = Inr (length kvs)"
| "json_len (JStr s) = Inr (length s)"
| "json_len _ = Inl TypeError"

text \<open>
  \<^verbatim>\<open>for entry in x\<close>: the elements of a list, the keys of a dict, the one-character
  strs of a str; a TypeError on the rest.
\<close>

fun json_iter :: "json \<Rightarrow> error + json list" where
  "json_iter (JArr xs) = Inr xs"
| "json_iter (JObj kvs) = Inr (map (\<lambda>kv. JStr (fst kv)) kvs)"
| "json_iter (JStr s) = Inr (map (\<lambda>c. JStr [c]) s)"
| "json_iter _ = Inl TypeError"

text \<open>
  \<^verbatim>\<open>x[key]\<close> with a str key: the value of a dict, a KeyError when the key is missing; a
  TypeError on every other value (a list and a str take integer indices, the rest has
  no subscript).
\<close>

fun getitem :: "json \<Rightarrow> string \<Rightarrow> error + json" where
  "getitem (JObj kvs) key = (case map_of kvs key of None \<Rightarrow> Inl KeyError | Some v \<Rightarrow> Inr v)"
| "getitem _ key = Inl TypeError"

text \<open>
  \<^verbatim>\<open>d[key] = v\<close> on a dict: an existing key keeps its position and takes the new value, a
  new key goes to the end.
\<close>

fun dict_set :: "string \<Rightarrow> json \<Rightarrow> (string \<times> json) list \<Rightarrow> (string \<times> json) list" where
  "dict_set key v [] = [(key, v)]"
| "dict_set key v ((k, u) # kvs) =
     (if k = key then (k, v) # kvs else (k, u) # dict_set key v kvs)"

fun setitem :: "json \<Rightarrow> string \<Rightarrow> json \<Rightarrow> error + json" where
  "setitem (JObj kvs) key v = Inr (JObj (dict_set key v kvs))"
| "setitem _ key v = Inl TypeError"

text \<open>
  \<^verbatim>\<open>flag in x\<close> with a str \<^verbatim>\<open>flag\<close>: substring test on a str, element test on a list
  (only a str element can equal a str), key test on a dict; a TypeError on the rest.
\<close>

fun py_in :: "string \<Rightarrow> json \<Rightarrow> error + bool" where
  "py_in flag (JStr s) = Inr (str_contains flag s)"
| "py_in flag (JArr xs) = Inr (JStr flag \<in> set xs)"
| "py_in flag (JObj kvs) = Inr (flag \<in> set (map fst kvs))"
| "py_in flag _ = Inl TypeError"

section \<open>The rewriting loop\<close>

text \<open>The flags the script removes (line 17).\<close>

definition flags_to_remove :: "string list" where
  "flags_to_remove = [''-mno-direct-extern-access'']"

text \<open>
  Lines 34 to 36, the body of the loop over the flags: when the flag is in the command,
  delete it and rebuild the command from its words. Only a str has \<^verbatim>\<open>replace\<close>; a list
  or a dict that holds the flag raises AttributeError.
\<close>

definition remove_flag :: "string \<Rightarrow> json \<Rightarrow> error + json" where
  "remove_flag flag modified_command =
     (case py_in flag modified_command of
        Inl e \<Rightarrow> Inl e
      | Inr False \<Rightarrow> Inr modified_command
      | Inr True \<Rightarrow>
          (case modified_command of
             JStr s \<Rightarrow> Inr (JStr (str_join '' '' (str_split (str_replace flag [] s))))
           | _ \<Rightarrow> Inl AttributeError))"

text \<open>Line 33, \<^verbatim>\<open>for flag in flags_to_remove\<close>.\<close>

fun remove_flags :: "string list \<Rightarrow> json \<Rightarrow> error + json" where
  "remove_flags [] modified_command = Inr modified_command"
| "remove_flags (flag # flags) modified_command =
     (case remove_flag flag modified_command of
        Inl e \<Rightarrow> Inl e
      | Inr m \<Rightarrow> remove_flags flags m)"

text \<open>
  Lines 29 to 40, the body of the loop over the entries. The result is the entry after
  the step and whether the counter was incremented.
\<close>

definition rewrite_entry :: "string list \<Rightarrow> json \<Rightarrow> error + json \<times> bool" where
  "rewrite_entry flags entry =
     (case getitem entry ''command'' of
        Inl e \<Rightarrow> Inl e
      | Inr original_command \<Rightarrow>
          (case remove_flags flags original_command of
             Inl e \<Rightarrow> Inl e
           | Inr modified_command \<Rightarrow>
               if modified_command \<noteq> original_command
               then (case setitem entry ''command'' modified_command of
                       Inl e \<Rightarrow> Inl e
                     | Inr entry' \<Rightarrow> Inr (entry', True))
               else Inr (entry, False)))"

text \<open>
  Line 28, \<^verbatim>\<open>for entry in commands\<close>, with the counter of line 26. The first exception
  ends the loop.
\<close>

fun rewrite_entries :: "string list \<Rightarrow> json list \<Rightarrow> nat \<Rightarrow> error + json list \<times> nat" where
  "rewrite_entries flags [] modified_count = Inr ([], modified_count)"
| "rewrite_entries flags (entry # entries) modified_count =
     (case rewrite_entry flags entry of
        Inl e \<Rightarrow> Inl e
      | Inr (entry', changed) \<Rightarrow>
          (case rewrite_entries flags entries (if changed then modified_count + 1 else modified_count) of
             Inl e \<Rightarrow> Inl e
           | Inr (entries', n) \<Rightarrow> Inr (entry' # entries', n)))"

text \<open>
  Lines 26 to 40 on whatever \<^verbatim>\<open>json.load\<close> returned. \<^verbatim>\<open>entry\<close> is the object in the
  list, not a copy, and line 39 assigns into it: afterwards \<^verbatim>\<open>commands\<close> is the list of
  the updated entries. What \<^verbatim>\<open>json.load\<close> builds is a tree, so no entry is shared with
  another one and an assignment reaches one position only. The keys of a dict and the
  characters of a str are strs, which the loop cannot update.
\<close>

definition rewrite :: "string list \<Rightarrow> json \<Rightarrow> error + json \<times> nat" where
  "rewrite flags commands =
     (case json_iter commands of
        Inl e \<Rightarrow> Inl e
      | Inr entries \<Rightarrow>
          (case rewrite_entries flags entries 0 of
             Inl e \<Rightarrow> Inl e
           | Inr (entries', modified_count) \<Rightarrow>
               Inr (case commands of JArr _ \<Rightarrow> JArr entries' | _ \<Rightarrow> commands, modified_count)))"

section \<open>Paths, files and output\<close>

text \<open>
  A \<^verbatim>\<open>pathlib.Path\<close> on POSIX: its root (empty for a relative path) and its components.
  \<^verbatim>\<open>str(path)\<close> joins the components with a slash behind the root; the empty path prints
  as a dot.
\<close>

record path =
  path_root :: string
  path_tail :: "string list"

definition path_str :: "path \<Rightarrow> string" where
  "path_str p =
     (let s = path_root p @ str_join ''/'' (path_tail p) in if s = [] then ''.'' else s)"

text \<open>\<^verbatim>\<open>path.name\<close>: the last component, empty when there is none.\<close>

definition path_name :: "path \<Rightarrow> string" where
  "path_name p = (if path_tail p = [] then [] else last (path_tail p))"

text \<open>
  \<^verbatim>\<open>path.suffix\<close>: the name from its last dot on, when that dot is neither the first nor
  the last character of the name; \<^verbatim>\<open>after\<close> counts the characters behind the last dot.
\<close>

definition path_suffix :: "path \<Rightarrow> string" where
  "path_suffix p =
     (let name = path_name p; after = length (takeWhile (\<lambda>c. c \<noteq> CHR ''.'') (rev name))
      in if CHR ''.'' \<in> set name \<and> 0 < after \<and> after + 1 < length name
         then drop (length name - (after + 1)) name
         else [])"

text \<open>
  \<^verbatim>\<open>path.with_suffix(ext)\<close>: a ValueError for a suffix \<^verbatim>\<open>ext\<close> that holds a slash, that does
  not start with a dot or that is a lone dot, and for a path with an empty name; else the
  name loses its old suffix and takes the new one.
\<close>

definition with_suffix :: "path \<Rightarrow> string \<Rightarrow> error + path" where
  "with_suffix p ext =
     (if CHR ''/'' \<in> set ext then Inl ValueError
      else if (ext \<noteq> [] \<and> \<not> prefix ''.'' ext) \<or> ext = ''.'' then Inl ValueError
      else if path_name p = [] then Inl ValueError
      else
        let name = path_name p; old_suffix = path_suffix p;
            name' = (if old_suffix = [] then name @ ext
                     else take (length name - length old_suffix) name @ ext)
        in Inr (p\<lparr>path_tail := butlast (path_tail p) @ [name']\<rparr>))"

text \<open>
  The text of a file, as far as the script can tell. Text the script did not write is
  given by what line 23, \<^verbatim>\<open>json.load(f)\<close>, makes of it: the exception it raises or the
  value it returns. \<^verbatim>\<open>json.load\<close> raises a JSONDecodeError on text it cannot parse, a
  UnicodeDecodeError on bytes the file's encoding does not have, a ValueError on an integer
  literal beyond the interpreter's limit of digits and a RecursionError on nesting beyond its
  limit of depth; it accepts \<^verbatim>\<open>NaN\<close> and \<^verbatim>\<open>Infinity\<close>, which a \<^const>\<open>JFloat\<close> holds.
  Which text does what is the library's matter and is not decided here. The other kind of
  text is what \<^verbatim>\<open>json.dump(value, f, indent=n)\<close> wrote for a value that \<^verbatim>\<open>json.load\<close> had
  returned: \<^verbatim>\<open>json.load\<close> reads it back as the value.
\<close>

datatype file_text =
    Foreign "error + json"
  | Dumped json nat

fun json_load :: "file_text \<Rightarrow> error + json" where
  "json_load (Foreign outcome) = outcome"
| "json_load (Dumped v indent) = Inr v"

text \<open>
  What a line on the error stream is: a printed message, or the traceback of an exception
  nobody caught.
\<close>

datatype err_line = Message string | Traceback error

text \<open>
  The files by path and the lines printed so far. A path that exists names a readable
  file, and every write succeeds.
\<close>

record world =
  files :: "path \<rightharpoonup> file_text"
  stdout :: "string list"
  stderr :: "err_line list"

definition print :: "string \<Rightarrow> world \<Rightarrow> world" where
  "print line w = w\<lparr>stdout := stdout w @ [line]\<rparr>"

definition path_exists :: "world \<Rightarrow> path \<Rightarrow> bool" where
  "path_exists w p = (files w p \<noteq> None)"

text \<open>\<^verbatim>\<open>open(p, 'r')\<close> and reading the file.\<close>

definition open_read :: "world \<Rightarrow> path \<Rightarrow> error + file_text" where
  "open_read w p = (case files w p of None \<Rightarrow> Inl FileNotFoundError | Some t \<Rightarrow> Inr t)"

text \<open>\<^verbatim>\<open>with open(p, 'w') as f: json.dump(v, f, indent=n)\<close>.\<close>

definition json_dump :: "json \<Rightarrow> path \<Rightarrow> nat \<Rightarrow> world \<Rightarrow> world" where
  "json_dump v p indent w = w\<lparr>files := (files w)(p \<mapsto> Dumped v indent)\<rparr>"

section \<open>The script\<close>

text \<open>
  Lines 44 to 55. \<^verbatim>\<open>commands\<close> is the object the loop has updated: both
  \<^verbatim>\<open>json.dump\<close> calls write it.
\<close>

definition write_files :: "path \<Rightarrow> path \<Rightarrow> json \<Rightarrow> world \<Rightarrow> error option \<times> world" where
  "write_files input_file output_file commands w =
     (let save = (\<lambda>w.
            let w = print (''Writing fixed compile_commands.json to '' @ path_str output_file @ ''...'') w;
                w = json_dump commands output_file 2 w
            in (None, print ''Done!'' w))
      in if output_file = input_file
         then (case with_suffix input_file ''.json.backup'' of
                 Inl e \<Rightarrow> (Some e, w)
               | Inr backup_file \<Rightarrow>
                   save (json_dump commands backup_file 2
                           (print (''Creating backup: '' @ path_str backup_file) w)))
         else save w)"

text \<open>
  \<^verbatim>\<open>fix_compile_commands(input_file, output_file)\<close>: the exception it ends with, if any,
  and the world it leaves.
\<close>

definition fix_compile_commands :: "path \<Rightarrow> path option \<Rightarrow> world \<Rightarrow> error option \<times> world" where
  "fix_compile_commands input_file output_opt w0 =
     (let output_file = (case output_opt of None \<Rightarrow> input_file | Some p \<Rightarrow> p);
          w1 = print (''Reading '' @ path_str input_file @ ''...'') w0
      in case open_read w1 input_file of
           Inl e \<Rightarrow> (Some e, w1)
         | Inr text \<Rightarrow>
        (case json_load text of
           Inl e \<Rightarrow> (Some e, w1)
         | Inr commands \<Rightarrow>
        (case json_len commands of
           Inl e \<Rightarrow> (Some e, w1)
         | Inr n \<Rightarrow>
        (let w2 = print (''Processing '' @ str_nat n @ '' compilation units...'') w1
         in case rewrite flags_to_remove commands of
              Inl e \<Rightarrow> (Some e, w2)
            | Inr (commands', modified_count) \<Rightarrow>
                write_files input_file output_file commands'
                  (print (''Modified '' @ str_nat modified_count @ '' compilation units'') w2)))))"

text \<open>
  Lines 57 to 64, the script run as a program: the exit status and the world it leaves. An
  exception that reaches the top prints its traceback and the status is 1.
\<close>

definition compile_commands_path :: path where
  "compile_commands_path = \<lparr>path_root = [], path_tail = [''build'', ''compile_commands.json'']\<rparr>"

definition main :: "world \<Rightarrow> nat \<times> world" where
  "main w =
     (if \<not> path_exists w compile_commands_path
      then (1, w\<lparr>stderr := stderr w @ [Message (''Error: '' @ path_str compile_commands_path @ '' not found!'')]\<rparr>)
      else (case fix_compile_commands compile_commands_path None w of
              (None, w') \<Rightarrow> (0, w')
            | (Some e, w') \<Rightarrow> (1, w'\<lparr>stderr := stderr w' @ [Traceback e]\<rparr>)))"

section \<open>Example inputs\<close>

text \<open>
  The two example inputs of the specification: one command with the flag, and the same
  command without it.
\<close>

definition with_flag :: json where
  "with_flag = JArr [JObj [(''command'', JStr ''gcc -O2 -mno-direct-extern-access -Wall file.c'')]]"

definition without_flag :: json where
  "without_flag = JArr [JObj [(''command'', JStr ''gcc -O2 -Wall file.c'')]]"

text \<open>A directory tree that holds the compilation database with the given content and nothing else.\<close>

definition world_with :: "json \<Rightarrow> world" where
  "world_with v = \<lparr>files = [compile_commands_path \<mapsto> Foreign (Inr v)], stdout = [], stderr = []\<rparr>"

definition backup_path :: path where
  "backup_path = \<lparr>path_root = [], path_tail = [''build'', ''compile_commands.json.backup'']\<rparr>"

section \<open>The specification's wording\<close>

text \<open>
  The shape the specification asks of the input: an array of objects that each hold a
  string under \<^verbatim>\<open>command\<close>.
\<close>

fun is_command_object :: "json \<Rightarrow> bool" where
  "is_command_object (JObj kvs) =
     (case map_of kvs ''command'' of Some (JStr c) \<Rightarrow> True | _ \<Rightarrow> False)"
| "is_command_object _ = False"

fun array_of_command_objects :: "json \<Rightarrow> bool" where
  "array_of_command_objects (JArr entries) = list_all is_command_object entries"
| "array_of_command_objects _ = False"

text \<open>
  The rewrite of one command as the specification words it: remove all occurrences of
  each flag's exact text, then normalize whitespace runs to a single space.
\<close>

fun collapse_whitespace :: "string \<Rightarrow> string" where
  "collapse_whitespace [] = []"
| "collapse_whitespace [c] = [if is_space c then CHR '' '' else c]"
| "collapse_whitespace (c # d # s) =
     (if is_space c
      then (if is_space d then collapse_whitespace (d # s)
            else CHR '' '' # collapse_whitespace (d # s))
      else c # collapse_whitespace (d # s))"

definition spec_rewrite_command :: "string list \<Rightarrow> string \<Rightarrow> string" where
  "spec_rewrite_command flags command =
     collapse_whitespace (fold (\<lambda>flag s. str_replace flag [] s) flags command)"

section \<open>Properties of the str methods\<close>

lemma str_contains_iff: "str_contains sub s \<longleftrightarrow> (\<exists>a b. s = a @ sub @ b)"
proof (induction s)
  case Nil
  show ?case by auto
next
  case (Cons c cs)
  show ?case
  proof
    assume "str_contains sub (c # cs)"
    then consider "prefix sub (c # cs)" | "str_contains sub cs" by auto
    then show "\<exists>a b. c # cs = a @ sub @ b"
    proof cases
      case 1
      then obtain b where "c # cs = sub @ b" by (auto simp: prefix_def)
      then have "c # cs = [] @ sub @ b" by simp
      then show ?thesis by blast
    next
      case 2
      with Cons.IH obtain a b where "cs = a @ sub @ b" by blast
      then have "c # cs = (c # a) @ sub @ b" by simp
      then show ?thesis by blast
    qed
  next
    assume "\<exists>a b. c # cs = a @ sub @ b"
    then obtain a b where ab: "c # cs = a @ sub @ b" by blast
    show "str_contains sub (c # cs)"
    proof (cases a)
      case Nil
      with ab have "prefix sub (c # cs)" by (simp add: prefix_def)
      then show ?thesis by simp
    next
      case (Cons x a')
      with ab have "cs = a' @ sub @ b" by simp
      with Cons.IH have "str_contains sub cs" by blast
      then show ?thesis by simp
    qed
  qed
qed

lemma str_replace_scan_absent:
  "\<not> str_contains old s \<Longrightarrow> str_replace_scan old new s = s"
  by (induction s) auto

lemma str_replace_absent:
  "old \<noteq> [] \<Longrightarrow> \<not> str_contains old s \<Longrightarrow> str_replace old new s = s"
  by (simp add: str_replace_def str_replace_scan_absent)

lemma str_split_words:
  "w \<in> set (str_split s) \<Longrightarrow> w \<noteq> [] \<and> (\<forall>c \<in> set w. \<not> is_space c)"
proof (induction s rule: str_split.induct)
  case 1
  then show ?case by simp
next
  case (2 c cs)
  show ?case
  proof (cases "is_space c")
    case True
    with 2 show ?thesis by simp
  next
    case False
    with 2(3) consider "w = c # takeWhile (\<lambda>x. \<not> is_space x) cs"
      | "w \<in> set (str_split (dropWhile (\<lambda>x. \<not> is_space x) cs))" by auto
    then show ?thesis
    proof cases
      case 1
      have "\<forall>x \<in> set (takeWhile (\<lambda>x. \<not> is_space x) cs). \<not> is_space x"
        using set_takeWhileD by fastforce
      with 1 False show ?thesis by simp
    next
      case 2
      with False "2.IH"(2) show ?thesis by blast
    qed
  qed
qed

lemma double_space_append:
  "CHR '' '' \<notin> set w \<Longrightarrow> str_contains ''  '' (w @ r) = str_contains ''  '' r"
  by (induction w) auto

lemma double_space_Cons:
  "r \<noteq> [] \<Longrightarrow> hd r \<noteq> CHR '' '' \<Longrightarrow> str_contains ''  '' (CHR '' '' # r) = str_contains ''  '' r"
  by (cases r) auto

lemma str_join_hd:
  "w \<noteq> [] \<Longrightarrow> str_join sep (w # ws) \<noteq> [] \<and> hd (str_join sep (w # ws)) = hd w"
  by (cases ws) auto

lemma str_join_no_double_space:
  "(\<And>w. w \<in> set ws \<Longrightarrow> w \<noteq> [] \<and> CHR '' '' \<notin> set w) \<Longrightarrow> \<not> str_contains ''  '' (str_join '' '' ws)"
proof (induction "'' ''" ws rule: str_join.induct)
  case 1
  show ?case by simp
next
  case (2 w)
  then have "CHR '' '' \<notin> set w" by simp
  then have "str_contains ''  '' (w @ []) = str_contains ''  '' []" by (rule double_space_append)
  then show ?case by simp
next
  case (3 w v ws)
  have w: "CHR '' '' \<notin> set w" and v: "v \<noteq> []" "CHR '' '' \<notin> set v" using 3(2) by auto
  have rest: "\<not> str_contains ''  '' (str_join '' '' (v # ws))" using 3 by simp
  have hd: "str_join '' '' (v # ws) \<noteq> []" "hd (str_join '' '' (v # ws)) \<noteq> CHR '' ''"
    using str_join_hd[OF v(1), of "'' ''" ws] v by (auto simp: neq_Nil_conv)
  have "str_contains ''  '' (w @ CHR '' '' # str_join '' '' (v # ws))
        = str_contains ''  '' (CHR '' '' # str_join '' '' (v # ws))"
    using w by (rule double_space_append)
  also have "\<dots> = str_contains ''  '' (str_join '' '' (v # ws))"
    using hd by (rule double_space_Cons)
  finally show ?case using rest by simp
qed

lemma space_is_space: "is_space CHR '' ''"
  by (simp add: is_space_def whitespace_def)

lemma normalised_no_double_space:
  "\<not> str_contains ''  '' (str_join '' '' (str_split s))"
proof (rule str_join_no_double_space)
  fix w assume "w \<in> set (str_split s)"
  then have "w \<noteq> []" "\<forall>c \<in> set w. \<not> is_space c" using str_split_words by blast+
  then show "w \<noteq> [] \<and> CHR '' '' \<notin> set w" using space_is_space by blast
qed

section \<open>Properties of the dict operations\<close>

lemma map_of_dict_set_same: "map_of (dict_set key v kvs) key = Some v"
  by (induction key v kvs rule: dict_set.induct) auto

lemma map_of_dict_set_other: "k \<noteq> key \<Longrightarrow> map_of (dict_set key v kvs) k = map_of kvs k"
  by (induction key v kvs rule: dict_set.induct) auto

lemma keys_dict_set: "map_of kvs key \<noteq> None \<Longrightarrow> map fst (dict_set key v kvs) = map fst kvs"
  by (induction key v kvs rule: dict_set.induct) auto

lemma filter_dict_set:
  "filter (\<lambda>kv. fst kv \<noteq> key) (dict_set key v kvs) = filter (\<lambda>kv. fst kv \<noteq> key) kvs"
  by (induction key v kvs rule: dict_set.induct) auto

section \<open>Properties of the rewriting loop\<close>

lemma remove_flag_str:
  "remove_flag flag (JStr s) =
     Inr (JStr (if str_contains flag s then str_join '' '' (str_split (str_replace flag [] s)) else s))"
  by (simp add: remove_flag_def)

lemma remove_flag_cases:
  assumes "remove_flag flag v = Inr m"
  shows "m = v \<or> (\<exists>s. v = JStr s \<and> str_contains flag s
                       \<and> m = JStr (str_join '' '' (str_split (str_replace flag [] s))))"
  using assms by (cases v) (auto simp: remove_flag_def split: if_splits sum.splits bool.splits)

lemma remove_flags_str: "\<exists>r. remove_flags flags (JStr s) = Inr (JStr r)"
proof (induction flags arbitrary: s)
  case Nil
  show ?case by simp
next
  case (Cons flag flags)
  show ?case using Cons.IH by (simp add: remove_flag_str)
qed

lemma remove_flags_absent:
  "(\<And>flag. flag \<in> set flags \<Longrightarrow> \<not> str_contains flag s) \<Longrightarrow> remove_flags flags (JStr s) = Inr (JStr s)"
  by (induction flags) (simp_all add: remove_flag_str)

lemma remove_flags_cases:
  "remove_flags flags v = Inr m \<Longrightarrow> m = v \<or> (\<exists>s r. v = JStr s \<and> m = JStr r)"
proof (induction flags arbitrary: v)
  case Nil
  then show ?case by simp
next
  case (Cons flag flags)
  from Cons.prems obtain m1 where m1: "remove_flag flag v = Inr m1" "remove_flags flags m1 = Inr m"
    by (auto split: sum.splits)
  from remove_flag_cases[OF m1(1)] show ?case
  proof
    assume "m1 = v"
    with m1(2) Cons.IH show ?thesis by blast
  next
    assume "\<exists>s. v = JStr s \<and> str_contains flag s
                       \<and> m1 = JStr (str_join '' '' (str_split (str_replace flag [] s)))"
    then obtain s r1 where v: "v = JStr s" "m1 = JStr r1" by blast
    from remove_flags_str[of flags r1] m1(2) v(2) obtain r where "m = JStr r" by auto
    with v show ?thesis by blast
  qed
qed

lemma rewrite_entry_Inr:
  assumes "rewrite_entry flags entry = Inr (entry', changed)"
  shows "\<exists>kvs original_command modified_command.
           entry = JObj kvs \<and> map_of kvs ''command'' = Some original_command
           \<and> remove_flags flags original_command = Inr modified_command
           \<and> changed = (modified_command \<noteq> original_command)
           \<and> entry' = (if changed then JObj (dict_set ''command'' modified_command kvs) else entry)"
proof (cases entry)
  case (JObj kvs)
  with assms show ?thesis
    by (auto simp: rewrite_entry_def split: option.splits sum.splits if_splits)
qed (use assms in \<open>simp_all add: rewrite_entry_def\<close>)

lemma rewrite_entry_cases:
  assumes "rewrite_entry flags entry = Inr (entry', changed)"
  obtains kvs original_command modified_command where
    "entry = JObj kvs" "map_of kvs ''command'' = Some original_command"
    "remove_flags flags original_command = Inr modified_command"
    "changed = (modified_command \<noteq> original_command)"
    "entry' = (if changed then JObj (dict_set ''command'' modified_command kvs) else entry)"
  using rewrite_entry_Inr[OF assms] by blast

lemma rewrite_entry_frame:
  assumes "rewrite_entry flags entry = Inr (entry', changed)"
  shows "\<exists>kvs kvs'. entry = JObj kvs \<and> entry' = JObj kvs' \<and> map fst kvs' = map fst kvs
           \<and> filter (\<lambda>kv. fst kv \<noteq> ''command'') kvs' = filter (\<lambda>kv. fst kv \<noteq> ''command'') kvs"
  using assms by (rule rewrite_entry_cases) (auto simp: keys_dict_set filter_dict_set)

lemma rewrite_entry_changed:
  assumes "rewrite_entry flags entry = Inr (entry', changed)"
  shows "changed \<longleftrightarrow> getitem entry ''command'' \<noteq> getitem entry' ''command''"
  using assms by (rule rewrite_entry_cases) (auto simp: map_of_dict_set_same)

lemma rewrite_entries_Inr:
  "rewrite_entries flags entries k = Inr (entries', n) \<Longrightarrow>
     list_all2 (\<lambda>e e'. \<exists>b. rewrite_entry flags e = Inr (e', b)) entries entries'
     \<and> n = k + length (filter (\<lambda>(e, e'). rewrite_entry flags e = Inr (e', True)) (zip entries entries'))"
proof (induction entries arbitrary: k entries' n)
  case Nil
  then show ?case by simp
next
  case (Cons entry entries)
  from Cons.prems obtain entry' changed rest where
    step: "rewrite_entry flags entry = Inr (entry', changed)"
    and rest: "rewrite_entries flags entries (if changed then k + 1 else k) = Inr (rest, n)"
    and out: "entries' = entry' # rest"
    by (auto split: sum.splits prod.splits)
  from Cons.IH[OF rest] step out show ?case by (cases changed) auto
qed

lemma rewrite_entries_fixed:
  "(\<And>e. e \<in> set entries \<Longrightarrow> rewrite_entry flags e = Inr (e, False)) \<Longrightarrow>
     rewrite_entries flags entries k = Inr (entries, k)"
  by (induction entries) simp_all

lemma rewrite_JArr:
  "rewrite flags (JArr entries) =
     (case rewrite_entries flags entries 0 of Inl e \<Rightarrow> Inl e | Inr (entries', n) \<Rightarrow> Inr (JArr entries', n))"
  by (simp add: rewrite_def split: sum.splits prod.splits)

section \<open>Properties of the file operations\<close>

lemma print_simps:
  "files (print line w) = files w" "stdout (print line w) = stdout w @ [line]"
  "stderr (print line w) = stderr w"
  by (simp_all add: print_def)

lemma json_dump_simps:
  "files (json_dump v p indent w) = (files w)(p \<mapsto> Dumped v indent)"
  "stdout (json_dump v p indent w) = stdout w" "stderr (json_dump v p indent w) = stderr w"
  by (simp_all add: json_dump_def)

lemma write_files_None:
  assumes "write_files input_file output_file commands w = (None, w')"
  shows "files w' output_file = Some (Dumped commands 2)"
    and "output_file = input_file \<Longrightarrow>
           \<exists>backup_file. with_suffix input_file ''.json.backup'' = Inr backup_file
             \<and> files w' backup_file = Some (Dumped commands 2)"
    and "\<exists>lines. stdout w' = stdout w @ lines"
    and "stderr w' = stderr w"
  using assms
  by (auto simp: write_files_def Let_def print_simps json_dump_simps split: if_splits sum.splits)

lemma fix_compile_commands_None:
  assumes "fix_compile_commands input_file output_opt w = (None, w')"
  shows "\<exists>text commands k commands' n.
           files w input_file = Some text \<and> json_load text = Inr commands
           \<and> json_len commands = Inr k
           \<and> rewrite flags_to_remove commands = Inr (commands', n)
           \<and> write_files input_file (case output_opt of None \<Rightarrow> input_file | Some p \<Rightarrow> p) commands'
                (print (''Modified '' @ str_nat n @ '' compilation units'')
                  (print (''Processing '' @ str_nat k @ '' compilation units...'')
                    (print (''Reading '' @ path_str input_file @ ''...'') w))) = (None, w')"
  using assms
  by (auto simp: fix_compile_commands_def Let_def open_read_def print_simps
           split: option.splits sum.splits prod.splits)

section \<open>Entries with a string under command\<close>

lemma getitem_Inr:
  "getitem entry key = Inr v \<Longrightarrow> \<exists>kvs. entry = JObj kvs \<and> map_of kvs key = Some v"
  by (cases entry) (auto split: option.splits)

lemma rewrite_entry_of_str:
  assumes "getitem entry ''command'' = Inr (JStr c)"
  shows "\<exists>entry' r. remove_flags flags (JStr c) = Inr (JStr r)
           \<and> rewrite_entry flags entry = Inr (entry', r \<noteq> c)
           \<and> getitem entry' ''command'' = Inr (JStr r)"
proof -
  from getitem_Inr[OF assms] obtain kvs where kvs: "entry = JObj kvs" "map_of kvs ''command'' = Some (JStr c)"
    by blast
  from remove_flags_str obtain r where r: "remove_flags flags (JStr c) = Inr (JStr r)" by blast
  show ?thesis
  proof (cases "r = c")
    case True
    with kvs r have "rewrite_entry flags entry = Inr (entry, r \<noteq> c)"
      by (simp add: rewrite_entry_def)
    with True r assms show ?thesis by auto
  next
    case False
    with kvs r have "rewrite_entry flags entry = Inr (JObj (dict_set ''command'' (JStr r) kvs), r \<noteq> c)"
      by (simp add: rewrite_entry_def)
    moreover have "getitem (JObj (dict_set ''command'' (JStr r) kvs)) ''command'' = Inr (JStr r)"
      by (simp add: map_of_dict_set_same)
    ultimately show ?thesis using r by blast
  qed
qed

section \<open>Runs on the compilation database\<close>

lemma rewrite_entries_count:
  assumes "rewrite_entries flags entries k = Inr (entries', n)"
  shows "n = k + length (filter (\<lambda>(e, e'). getitem e ''command'' \<noteq> getitem e' ''command'')
                           (zip entries entries'))"
proof -
  from rewrite_entries_Inr[OF assms]
  have steps: "list_all2 (\<lambda>e e'. \<exists>b. rewrite_entry flags e = Inr (e', b)) entries entries'"
    and n: "n = k + length (filter (\<lambda>(e, e'). rewrite_entry flags e = Inr (e', True)) (zip entries entries'))"
    by blast+
  have "(rewrite_entry flags e = Inr (e', True)) = (getitem e ''command'' \<noteq> getitem e' ''command'')"
    if "(e, e') \<in> set (zip entries entries')" for e e'
  proof -
    from steps that obtain b where b: "rewrite_entry flags e = Inr (e', b)"
      by (auto simp: list_all2_iff)
    from rewrite_entry_changed[OF b] b show ?thesis by auto
  qed
  then have "filter (\<lambda>(e, e'). rewrite_entry flags e = Inr (e', True)) (zip entries entries')
           = filter (\<lambda>(e, e'). getitem e ''command'' \<noteq> getitem e' ''command'') (zip entries entries')"
    by (intro filter_cong) auto
  with n show ?thesis by simp
qed

lemma backup_of_compile_commands_path:
  "with_suffix compile_commands_path ''.json.backup'' = Inr backup_path"
  by (simp add: with_suffix_def path_name_def path_suffix_def compile_commands_path_def backup_path_def)

lemma run_in_place:
  assumes "files w compile_commands_path = Some content"
    and "json_load content = Inr commands"
    and "json_len commands = Inr k"
    and "rewrite flags_to_remove commands = Inr (commands', n)"
  shows "fix_compile_commands compile_commands_path None w =
           (None, w\<lparr>files := (files w)(backup_path \<mapsto> Dumped commands' 2,
                                     compile_commands_path \<mapsto> Dumped commands' 2),
                     stdout := stdout w @
                       [''Reading build/compile_commands.json...'',
                        ''Processing '' @ str_nat k @ '' compilation units...'',
                        ''Modified '' @ str_nat n @ '' compilation units'',
                        ''Creating backup: build/compile_commands.json.backup'',
                        ''Writing fixed compile_commands.json to build/compile_commands.json...'',
                        ''Done!'']\<rparr>)"
proof -
  have str: "path_str compile_commands_path = ''build/compile_commands.json''"
    "path_str backup_path = ''build/compile_commands.json.backup''"
    by (simp_all add: path_str_def compile_commands_path_def backup_path_def)
  show ?thesis
    using assms
    by (simp add: fix_compile_commands_def write_files_def open_read_def Let_def
                  backup_of_compile_commands_path str print_def json_dump_def)
qed

lemma rewrite_with_flag: "rewrite flags_to_remove with_flag = Inr (without_flag, 1)"
  by (simp add: with_flag_def without_flag_def rewrite_def rewrite_entry_def remove_flag_def
                flags_to_remove_def str_replace_def is_space_def whitespace_def)

lemma rewrite_without_flag: "rewrite flags_to_remove without_flag = Inr (without_flag, 0)"
  by (simp add: without_flag_def rewrite_def rewrite_entry_def remove_flag_def flags_to_remove_def)

lemma str_nat_digit: "n < 10 \<Longrightarrow> str_nat n = [digit n]"
  by (simp add: str_nat.simps)

section \<open>Commands without a flag\<close>

text \<open>
  C9. An entry whose command holds none of the flags of \<^const>\<open>flags_to_remove\<close> leaves the
  loop body as it entered it and is not counted: the words of the command are joined anew
  only behind a flag that was found (line 34), so whitespace runs in such a command stay.
\<close>

theorem flag_free_command_unchanged:
  assumes "getitem entry ''command'' = Inr (JStr c)"
    and "\<forall>flag \<in> set flags_to_remove. \<not> str_contains flag c"
  shows "rewrite_entry flags_to_remove entry = Inr (entry, False)"
proof -
  from assms(2) have "remove_flags flags_to_remove (JStr c) = Inr (JStr c)"
    by (intro remove_flags_absent) blast
  moreover from getitem_Inr[OF assms(1)] obtain kvs where
    "entry = JObj kvs" "map_of kvs ''command'' = Some (JStr c)" by blast
  ultimately show ?thesis by (simp add: rewrite_entry_def)
qed

text \<open>A command with runs of two and three spaces and no flag.\<close>

theorem flag_free_command_unchanged_witness:
  "getitem (JObj [(''file'', JStr ''a.c''), (''command'', JStr ''gcc  -O2   -c a.c'')]) ''command''
      = Inr (JStr ''gcc  -O2   -c a.c'')
   \<and> flags_to_remove = [''-mno-direct-extern-access'']
   \<and> \<not> str_contains ''-mno-direct-extern-access'' ''gcc  -O2   -c a.c''
   \<and> rewrite_entry flags_to_remove (JObj [(''file'', JStr ''a.c''), (''command'', JStr ''gcc  -O2   -c a.c'')])
      = Inr (JObj [(''file'', JStr ''a.c''), (''command'', JStr ''gcc  -O2   -c a.c'')], False)"
proof -
  have 1: "getitem (JObj [(''file'', JStr ''a.c''), (''command'', JStr ''gcc  -O2   -c a.c'')]) ''command''
      = Inr (JStr ''gcc  -O2   -c a.c'')" by simp
  have 2: "\<forall>flag \<in> set flags_to_remove. \<not> str_contains flag ''gcc  -O2   -c a.c''"
    by (simp add: flags_to_remove_def)
  have 3: "\<not> str_contains ''-mno-direct-extern-access'' ''gcc  -O2   -c a.c''" by simp
  from 1 3 flag_free_command_unchanged[OF 1 2] show ?thesis by (simp add: flags_to_remove_def)
qed

section \<open>Whitespace behind a removed flag\<close>

text \<open>
  C8. A command that holds a flag between two spaces is rewritten, and the command the
  entry holds afterwards has no two spaces in a row.
\<close>

theorem rewritten_command_has_no_double_space:
  assumes "flag \<in> set flags_to_remove"
    and "getitem entry ''command'' = Inr (JStr (pre @ '' '' @ flag @ '' '' @ post))"
  shows "\<exists>entry' changed r. rewrite_entry flags_to_remove entry = Inr (entry', changed)
           \<and> getitem entry' ''command'' = Inr (JStr r)
           \<and> \<not> str_contains ''  '' r"
proof -
  let ?c = "pre @ '' '' @ flag @ '' '' @ post"
  from assms(1) have flag: "flags_to_remove = [flag]" by (simp add: flags_to_remove_def)
  have "?c = (pre @ '' '') @ flag @ ('' '' @ post)" by simp
  then have "str_contains flag ?c" unfolding str_contains_iff by blast
  then have r: "remove_flags flags_to_remove (JStr ?c)
                = Inr (JStr (str_join '' '' (str_split (str_replace flag [] ?c))))"
    unfolding flag by (simp add: remove_flag_str)
  from rewrite_entry_of_str[OF assms(2), of flags_to_remove] r
  obtain entry' where "rewrite_entry flags_to_remove entry
       = Inr (entry', str_join '' '' (str_split (str_replace flag [] ?c)) \<noteq> ?c)"
    "getitem entry' ''command'' = Inr (JStr (str_join '' '' (str_split (str_replace flag [] ?c))))"
    by auto
  with normalised_no_double_space[of "str_replace flag [] ?c"] show ?thesis by blast
qed

theorem rewritten_command_has_no_double_space_witness:
  "''-mno-direct-extern-access'' \<in> set flags_to_remove
   \<and> getitem (JObj [(''command'', JStr (''gcc -O2'' @ '' '' @ ''-mno-direct-extern-access'' @ '' '' @ ''-Wall file.c''))]) ''command''
       = Inr (JStr (''gcc -O2'' @ '' '' @ ''-mno-direct-extern-access'' @ '' '' @ ''-Wall file.c''))
   \<and> (\<exists>entry' changed r.
         rewrite_entry flags_to_remove
           (JObj [(''command'', JStr (''gcc -O2'' @ '' '' @ ''-mno-direct-extern-access'' @ '' '' @ ''-Wall file.c''))])
           = Inr (entry', changed)
         \<and> getitem entry' ''command'' = Inr (JStr r) \<and> \<not> str_contains ''  '' r)"
proof -
  have 1: "''-mno-direct-extern-access'' \<in> set flags_to_remove" by (simp add: flags_to_remove_def)
  have 2: "getitem (JObj [(''command'', JStr (''gcc -O2'' @ '' '' @ ''-mno-direct-extern-access'' @ '' '' @ ''-Wall file.c''))]) ''command''
       = Inr (JStr (''gcc -O2'' @ '' '' @ ''-mno-direct-extern-access'' @ '' '' @ ''-Wall file.c''))"
    by simp
  from rewritten_command_has_no_double_space[OF 1 2] 1 2 show ?thesis by blast
qed

section \<open>The count that is reported\<close>

text \<open>
  C3. When a run on a list of entries succeeds, the count in the line
  \<^verbatim>\<open>Modified n compilation units\<close> it prints is the number of positions at which the
  entry written to the output file and the entry read from the input file differ in what
  \<^verbatim>\<open>command\<close> holds.
\<close>

theorem modified_count_reported:
  assumes "files w input_file = Some content"
    and "json_load content = Inr (JArr entries)"
    and "fix_compile_commands input_file output_opt w = (None, w')"
  shows "\<exists>entries' n.
           rewrite flags_to_remove (JArr entries) = Inr (JArr entries', n)
           \<and> files w' (case output_opt of None \<Rightarrow> input_file | Some p \<Rightarrow> p) = Some (Dumped (JArr entries') 2)
           \<and> stdout w' ! (length (stdout w) + 2) = ''Modified '' @ str_nat n @ '' compilation units''
           \<and> n = length (filter (\<lambda>(e, e'). getitem e ''command'' \<noteq> getitem e' ''command'')
                           (zip entries entries'))"
proof -
  let ?out = "case output_opt of None \<Rightarrow> input_file | Some p \<Rightarrow> p"
  from fix_compile_commands_None[OF assms(3)] assms(1,2)
  obtain k commands' n where
    rw: "rewrite flags_to_remove (JArr entries) = Inr (commands', n)"
    and wr: "write_files input_file ?out commands'
                (print (''Modified '' @ str_nat n @ '' compilation units'')
                  (print (''Processing '' @ str_nat k @ '' compilation units...'')
                    (print (''Reading '' @ path_str input_file @ ''...'') w))) = (None, w')"
    by auto
  from rw obtain entries' where c': "commands' = JArr entries'"
    and loop: "rewrite_entries flags_to_remove entries 0 = Inr (entries', n)"
    by (auto simp: rewrite_JArr split: sum.splits prod.splits)
  from write_files_None(3)[OF wr] obtain lines where
    "stdout w' = (stdout w @ [''Reading '' @ path_str input_file @ ''...'',
                              ''Processing '' @ str_nat k @ '' compilation units...'',
                              ''Modified '' @ str_nat n @ '' compilation units'']) @ lines"
    by (auto simp: print_simps)
  then have "stdout w' ! (length (stdout w) + 2) = ''Modified '' @ str_nat n @ '' compilation units''"
    by (simp add: nth_append)
  moreover from write_files_None(1)[OF wr] c' have "files w' ?out = Some (Dumped (JArr entries') 2)"
    by simp
  moreover from rewrite_entries_count[OF loop]
  have "n = length (filter (\<lambda>(e, e'). getitem e ''command'' \<noteq> getitem e' ''command'')
                           (zip entries entries'))" by simp
  ultimately show ?thesis using rw c' by blast
qed

text \<open>
  A database of three entries, the first and the last with the flag: the run prints
  \<^verbatim>\<open>Modified 2 compilation units\<close>.
\<close>

theorem modified_count_reported_witness:
  "fst (fix_compile_commands compile_commands_path None
          (world_with (JArr [JObj [(''command'', JStr ''cc -mno-direct-extern-access a.c'')],
                             JObj [(''command'', JStr ''cc  b.c'')],
                             JObj [(''command'', JStr ''cc -mno-direct-extern-access c.c'')]]))) = None
   \<and> stdout (snd (fix_compile_commands compile_commands_path None
          (world_with (JArr [JObj [(''command'', JStr ''cc -mno-direct-extern-access a.c'')],
                             JObj [(''command'', JStr ''cc  b.c'')],
                             JObj [(''command'', JStr ''cc -mno-direct-extern-access c.c'')]])))) ! 2
       = ''Modified 2 compilation units''
   \<and> (\<exists>entries' n.
         rewrite flags_to_remove (JArr [JObj [(''command'', JStr ''cc -mno-direct-extern-access a.c'')],
                             JObj [(''command'', JStr ''cc  b.c'')],
                             JObj [(''command'', JStr ''cc -mno-direct-extern-access c.c'')]])
           = Inr (JArr entries', n)
         \<and> n = length (filter (\<lambda>(e, e'). getitem e ''command'' \<noteq> getitem e' ''command'')
                   (zip [JObj [(''command'', JStr ''cc -mno-direct-extern-access a.c'')],
                         JObj [(''command'', JStr ''cc  b.c'')],
                         JObj [(''command'', JStr ''cc -mno-direct-extern-access c.c'')]] entries')))"
proof -
  let ?es = "[JObj [(''command'', JStr ''cc -mno-direct-extern-access a.c'')],
              JObj [(''command'', JStr ''cc  b.c'')],
              JObj [(''command'', JStr ''cc -mno-direct-extern-access c.c'')]]"
  let ?es' = "[JObj [(''command'', JStr ''cc a.c'')],
               JObj [(''command'', JStr ''cc  b.c'')],
               JObj [(''command'', JStr ''cc c.c'')]]"
  let ?w = "world_with (JArr ?es)"
  have rw: "rewrite flags_to_remove (JArr ?es) = Inr (JArr ?es', 2)"
    by (simp add: rewrite_def rewrite_entry_def remove_flag_def flags_to_remove_def
                  str_replace_def is_space_def whitespace_def)
  have f: "files ?w compile_commands_path = Some (Foreign (Inr (JArr ?es)))"
    by (simp add: world_with_def)
  have l: "json_load (Foreign (Inr (JArr ?es))) = Inr (JArr ?es)" by simp
  have k: "json_len (JArr ?es) = Inr 3" by simp
  note run = run_in_place[OF f l k rw]
  have run': "fix_compile_commands compile_commands_path None ?w
                = (None, snd (fix_compile_commands compile_commands_path None ?w))"
    by (simp add: run)
  have out: "stdout (snd (fix_compile_commands compile_commands_path None ?w)) ! 2
               = ''Modified 2 compilation units''"
    unfolding run by (simp add: world_with_def str_nat_digit digit_def)
  from modified_count_reported[OF f l run'] obtain entries' n where
    "rewrite flags_to_remove (JArr ?es) = Inr (JArr entries', n)"
    "n = length (filter (\<lambda>(e, e'). getitem e ''command'' \<noteq> getitem e' ''command'') (zip ?es entries'))"
    by blast
  with run out show ?thesis by (simp only: fst_conv) blast
qed

section \<open>What the rewriting leaves alone\<close>

text \<open>
  C7. When the loop succeeds on a list of entries, the list it leaves has the same length,
  and at every position the entry is an object with the same keys in the same order and
  with the same value under every key but \<^verbatim>\<open>command\<close>.
\<close>

theorem rewrite_changes_only_command:
  assumes "rewrite flags_to_remove (JArr entries) = Inr (out, n)"
  shows "\<exists>entries'. out = JArr entries' \<and> length entries' = length entries
           \<and> (\<forall>i < length entries. \<exists>kvs kvs'.
                 entries ! i = JObj kvs \<and> entries' ! i = JObj kvs'
                 \<and> map fst kvs' = map fst kvs
                 \<and> filter (\<lambda>kv. fst kv \<noteq> ''command'') kvs' = filter (\<lambda>kv. fst kv \<noteq> ''command'') kvs)"
proof -
  from assms obtain entries' where out: "out = JArr entries'"
    and loop: "rewrite_entries flags_to_remove entries 0 = Inr (entries', n)"
    by (auto simp: rewrite_JArr split: sum.splits prod.splits)
  from rewrite_entries_Inr[OF loop]
  have steps: "list_all2 (\<lambda>e e'. \<exists>b. rewrite_entry flags_to_remove e = Inr (e', b)) entries entries'"
    by blast
  then have len: "length entries' = length entries" by (simp add: list_all2_lengthD)
  have "\<exists>kvs kvs'. entries ! i = JObj kvs \<and> entries' ! i = JObj kvs' \<and> map fst kvs' = map fst kvs
           \<and> filter (\<lambda>kv. fst kv \<noteq> ''command'') kvs' = filter (\<lambda>kv. fst kv \<noteq> ''command'') kvs"
    if "i < length entries" for i
  proof -
    from steps that obtain b where "rewrite_entry flags_to_remove (entries ! i) = Inr (entries' ! i, b)"
      by (auto dest: list_all2_nthD)
    then show ?thesis by (rule rewrite_entry_frame)
  qed
  with out len show ?thesis by blast
qed

text \<open>Two entries with a directory before and a file behind the command.\<close>

theorem rewrite_changes_only_command_witness:
  "rewrite flags_to_remove
     (JArr [JObj [(''directory'', JStr ''/w''), (''command'', JStr ''cc -mno-direct-extern-access -c a.c''),
                  (''file'', JStr ''a.c'')],
            JObj [(''directory'', JStr ''/w''), (''command'', JStr ''cc -c b.c''), (''file'', JStr ''b.c'')]])
     = Inr (JArr [JObj [(''directory'', JStr ''/w''), (''command'', JStr ''cc -c a.c''),
                        (''file'', JStr ''a.c'')],
                  JObj [(''directory'', JStr ''/w''), (''command'', JStr ''cc -c b.c''), (''file'', JStr ''b.c'')]], 1)
   \<and> (\<exists>entries'.
         JArr [JObj [(''directory'', JStr ''/w''), (''command'', JStr ''cc -c a.c''), (''file'', JStr ''a.c'')],
               JObj [(''directory'', JStr ''/w''), (''command'', JStr ''cc -c b.c''), (''file'', JStr ''b.c'')]]
           = JArr entries'
         \<and> length entries' = 2
         \<and> (\<exists>kvs kvs'. JObj [(''directory'', JStr ''/w''), (''command'', JStr ''cc -mno-direct-extern-access -c a.c''),
                  (''file'', JStr ''a.c'')] = JObj kvs \<and> entries' ! 0 = JObj kvs'
               \<and> map fst kvs' = map fst kvs
               \<and> filter (\<lambda>kv. fst kv \<noteq> ''command'') kvs' = filter (\<lambda>kv. fst kv \<noteq> ''command'') kvs))"
proof -
  let ?es = "[JObj [(''directory'', JStr ''/w''), (''command'', JStr ''cc -mno-direct-extern-access -c a.c''),
                  (''file'', JStr ''a.c'')],
            JObj [(''directory'', JStr ''/w''), (''command'', JStr ''cc -c b.c''), (''file'', JStr ''b.c'')]]"
  let ?es' = "[JObj [(''directory'', JStr ''/w''), (''command'', JStr ''cc -c a.c''), (''file'', JStr ''a.c'')],
               JObj [(''directory'', JStr ''/w''), (''command'', JStr ''cc -c b.c''), (''file'', JStr ''b.c'')]]"
  have rw: "rewrite flags_to_remove (JArr ?es) = Inr (JArr ?es', 1)"
    by (simp add: rewrite_def rewrite_entry_def remove_flag_def flags_to_remove_def
                  str_replace_def is_space_def whitespace_def)
  from rewrite_changes_only_command[OF rw] obtain entries' where
    e: "JArr ?es' = JArr entries'" "length entries' = length ?es"
    and all: "\<forall>i < length ?es. \<exists>kvs kvs'.
                 ?es ! i = JObj kvs \<and> entries' ! i = JObj kvs'
                 \<and> map fst kvs' = map fst kvs
                 \<and> filter (\<lambda>kv. fst kv \<noteq> ''command'') kvs' = filter (\<lambda>kv. fst kv \<noteq> ''command'') kvs"
    by blast
  from all[THEN spec, of 0] have "\<exists>kvs kvs'. ?es ! 0 = JObj kvs \<and> entries' ! 0 = JObj kvs'
                 \<and> map fst kvs' = map fst kvs
                 \<and> filter (\<lambda>kv. fst kv \<noteq> ''command'') kvs' = filter (\<lambda>kv. fst kv \<noteq> ''command'') kvs"
    by simp
  with rw e show ?thesis by simp
qed

section \<open>The files a run writes\<close>

text \<open>
  C10. Every run that ends without an exception has written the output file, and the
  backup file too when the output path is the input path: each holds the entries as the
  loop left them, dumped with an indentation of 2. This does not depend on the count, so
  it holds when no entry changed.
\<close>

theorem output_written_on_every_successful_run:
  assumes "fix_compile_commands input_file output_opt w = (None, w')"
    and "output_file = (case output_opt of None \<Rightarrow> input_file | Some p \<Rightarrow> p)"
  shows "\<exists>content commands commands' n.
           files w input_file = Some content \<and> json_load content = Inr commands
           \<and> rewrite flags_to_remove commands = Inr (commands', n)
           \<and> files w' output_file = Some (Dumped commands' 2)
           \<and> (output_file = input_file \<longrightarrow>
                (\<exists>backup_file. with_suffix input_file ''.json.backup'' = Inr backup_file
                   \<and> files w' backup_file = Some (Dumped commands' 2)))"
proof -
  from fix_compile_commands_None[OF assms(1)] assms(2)
  obtain content commands k commands' n w3 where
    ld: "files w input_file = Some content" "json_load content = Inr commands"
    and rw: "rewrite flags_to_remove commands = Inr (commands', n)"
    and wr: "write_files input_file output_file commands' w3 = (None, w')"
    by auto
  from write_files_None(1,2)[OF wr] ld rw show ?thesis by blast
qed

text \<open>
  The database without the flag, rewritten in place: the count is 0, and the output and
  the backup are both written.
\<close>

theorem output_written_on_every_successful_run_witness:
  "fix_compile_commands compile_commands_path None (world_with without_flag)
     = (None, \<lparr>files = [compile_commands_path \<mapsto> Foreign (Inr without_flag),
                        backup_path \<mapsto> Dumped without_flag 2,
                        compile_commands_path \<mapsto> Dumped without_flag 2],
               stdout = [''Reading build/compile_commands.json...'',
                         ''Processing 1 compilation units...'',
                         ''Modified 0 compilation units'',
                         ''Creating backup: build/compile_commands.json.backup'',
                         ''Writing fixed compile_commands.json to build/compile_commands.json...'',
                         ''Done!''],
               stderr = []\<rparr>)
   \<and> (\<exists>content commands commands' n.
         files (world_with without_flag) compile_commands_path = Some content
         \<and> json_load content = Inr commands
         \<and> rewrite flags_to_remove commands = Inr (commands', n)
         \<and> [compile_commands_path \<mapsto> Foreign (Inr without_flag),
             backup_path \<mapsto> Dumped without_flag 2,
             compile_commands_path \<mapsto> Dumped without_flag 2] compile_commands_path
            = Some (Dumped commands' 2)
         \<and> (\<exists>backup_file. with_suffix compile_commands_path ''.json.backup'' = Inr backup_file
               \<and> [compile_commands_path \<mapsto> Foreign (Inr without_flag),
                   backup_path \<mapsto> Dumped without_flag 2,
                   compile_commands_path \<mapsto> Dumped without_flag 2] backup_file
                  = Some (Dumped commands' 2)))"
proof -
  let ?w = "world_with without_flag"
  let ?files = "[compile_commands_path \<mapsto> Foreign (Inr without_flag),
                 backup_path \<mapsto> Dumped without_flag 2,
                 compile_commands_path \<mapsto> Dumped without_flag 2]"
  let ?w' = "\<lparr>files = ?files,
               stdout = [''Reading build/compile_commands.json...'',
                         ''Processing 1 compilation units...'',
                         ''Modified 0 compilation units'',
                         ''Creating backup: build/compile_commands.json.backup'',
                         ''Writing fixed compile_commands.json to build/compile_commands.json...'',
                         ''Done!''],
               stderr = []\<rparr>"
  have f: "files ?w compile_commands_path = Some (Foreign (Inr without_flag))"
    by (simp add: world_with_def)
  have l: "json_load (Foreign (Inr without_flag)) = Inr without_flag" by simp
  have k: "json_len without_flag = Inr 1" by (simp add: without_flag_def)
  have run: "fix_compile_commands compile_commands_path None ?w = (None, ?w')"
    unfolding run_in_place[OF f l k rewrite_without_flag]
    by (simp add: world_with_def str_nat_digit digit_def)
  have out: "compile_commands_path = (case None of None \<Rightarrow> compile_commands_path | Some p \<Rightarrow> p)"
    by simp
  from output_written_on_every_successful_run[OF run out]
  obtain content commands commands' n where
    "files ?w compile_commands_path = Some content" "json_load content = Inr commands"
    "rewrite flags_to_remove commands = Inr (commands', n)"
    "files ?w' compile_commands_path = Some (Dumped commands' 2)"
    "\<exists>backup_file. with_suffix compile_commands_path ''.json.backup'' = Inr backup_file
                   \<and> files ?w' backup_file = Some (Dumped commands' 2)"
    by blast
  then have "\<exists>content commands commands' n.
         files ?w compile_commands_path = Some content
         \<and> json_load content = Inr commands
         \<and> rewrite flags_to_remove commands = Inr (commands', n)
         \<and> ?files compile_commands_path = Some (Dumped commands' 2)
         \<and> (\<exists>backup_file. with_suffix compile_commands_path ''.json.backup'' = Inr backup_file
               \<and> ?files backup_file = Some (Dumped commands' 2))"
    by (simp only: world.simps) blast
  with run show ?thesis by blast
qed

section \<open>A missing input file\<close>

text \<open>
  C6. When \<^verbatim>\<open>build/compile_commands.json\<close> does not exist, the program prints its error
  message on the error stream and exits with status 1; it has read nothing, printed
  nothing on the output stream and written no file. The status is 0 exactly when the file
  exists and the run ends without an exception.
\<close>

theorem missing_input_exits_1:
  "(\<not> path_exists w compile_commands_path \<longrightarrow>
      main w = (1, w\<lparr>stderr := stderr w @ [Message ''Error: build/compile_commands.json not found!'']\<rparr>))
   \<and> (fst (main v) = 0 \<longleftrightarrow>
        path_exists v compile_commands_path
        \<and> fst (fix_compile_commands compile_commands_path None v) = None)"
  by (auto simp: main_def path_str_def compile_commands_path_def split: prod.splits option.splits)

text \<open>An empty directory tree, and the tree that holds the database with the flag.\<close>

theorem missing_input_exits_1_witness:
  "\<not> path_exists \<lparr>files = Map.empty, stdout = [], stderr = []\<rparr> compile_commands_path
   \<and> main \<lparr>files = Map.empty, stdout = [], stderr = []\<rparr>
       = (1, \<lparr>files = Map.empty, stdout = [],
               stderr = [Message ''Error: build/compile_commands.json not found!'']\<rparr>)
   \<and> path_exists (world_with with_flag) compile_commands_path
   \<and> fst (fix_compile_commands compile_commands_path None (world_with with_flag)) = None
   \<and> fst (main (world_with with_flag)) = 0"
proof -
  let ?w = "\<lparr>files = Map.empty, stdout = [], stderr = []\<rparr>"
  let ?v = "world_with with_flag"
  have missing: "\<not> path_exists ?w compile_commands_path" by (simp add: path_exists_def)
  have f: "files ?v compile_commands_path = Some (Foreign (Inr with_flag))"
    by (simp add: world_with_def)
  have l: "json_load (Foreign (Inr with_flag)) = Inr with_flag" by simp
  have k: "json_len with_flag = Inr 1" by (simp add: with_flag_def)
  have there: "path_exists ?v compile_commands_path" using f by (simp add: path_exists_def)
  have ok: "fst (fix_compile_commands compile_commands_path None ?v) = None"
    by (simp add: run_in_place[OF f l k rewrite_with_flag])
  from missing_input_exits_1[of ?w ?v] missing there ok show ?thesis by simp
qed

section \<open>The backup\<close>

text \<open>
  C1. The comment of line 44 announces a backup of the original. The loop has updated
  the entries of \<^verbatim>\<open>commands\<close> in place by then, and line 49 dumps \<^verbatim>\<open>commands\<close>: on
  the database with the flag, the backup holds the rewritten entries, the same as the
  output file, and not the entries that were read.
\<close>

theorem backup_holds_rewritten_entries:
  "files (world_with with_flag) compile_commands_path = Some (Foreign (Inr with_flag))
   \<and> fst (main (world_with with_flag)) = 0
   \<and> files (snd (main (world_with with_flag))) backup_path = Some (Dumped without_flag 2)
   \<and> files (snd (main (world_with with_flag))) compile_commands_path = Some (Dumped without_flag 2)
   \<and> json_load (Dumped without_flag 2) = Inr without_flag
   \<and> json_load (Foreign (Inr with_flag)) = Inr with_flag
   \<and> without_flag \<noteq> with_flag"
proof -
  let ?v = "world_with with_flag"
  have f: "files ?v compile_commands_path = Some (Foreign (Inr with_flag))"
    by (simp add: world_with_def)
  have l: "json_load (Foreign (Inr with_flag)) = Inr with_flag" by simp
  have k: "json_len with_flag = Inr 1" by (simp add: with_flag_def)
  note run = run_in_place[OF f l k rewrite_with_flag]
  have there: "path_exists ?v compile_commands_path" using f by (simp add: path_exists_def)
  have m: "main ?v = (0, snd (fix_compile_commands compile_commands_path None ?v))"
    using there by (simp add: main_def run)
  have b: "files (snd (main ?v)) backup_path = Some (Dumped without_flag 2)"
    unfolding m run by (simp add: backup_path_def compile_commands_path_def)
  have c: "files (snd (main ?v)) compile_commands_path = Some (Dumped without_flag 2)"
    unfolding m run by simp
  have ne: "without_flag \<noteq> with_flag" by (simp add: with_flag_def without_flag_def)
  from f m b c l ne show ?thesis by simp
qed

section \<open>The exceptions of the loop\<close>

lemma remove_flag_error:
  "remove_flag flag v = Inl e \<Longrightarrow> e = TypeError \<or> e = AttributeError"
  by (cases v) (auto simp: remove_flag_def split: bool.splits)

lemma remove_flags_error:
  "remove_flags flags v = Inl e \<Longrightarrow> e = TypeError \<or> e = AttributeError"
proof (induction flags arbitrary: v)
  case Nil
  then show ?case by simp
next
  case (Cons flag flags)
  then show ?case by (auto split: sum.splits dest: remove_flag_error)
qed

lemma getitem_error:
  "getitem entry key = Inl e \<Longrightarrow> e = TypeError \<or> e = KeyError"
  by (cases entry) (auto split: option.splits)

lemma setitem_error:
  "setitem entry key v = Inl e \<Longrightarrow> e = TypeError"
  by (cases entry) auto

lemma rewrite_entry_error:
  assumes "rewrite_entry flags entry = Inl e"
  shows "e = TypeError \<or> e = KeyError \<or> e = AttributeError"
proof (cases "getitem entry ''command''")
  case (Inl a)
  with assms getitem_error[OF Inl] show ?thesis by (auto simp: rewrite_entry_def)
next
  case (Inr original_command)
  show ?thesis
  proof (cases "remove_flags flags original_command")
    case (Inl a)
    with assms Inr remove_flags_error[OF Inl] show ?thesis by (auto simp: rewrite_entry_def)
  next
    case modified: (Inr modified_command)
    show ?thesis
    proof (cases "setitem entry ''command'' modified_command")
      case (Inl a)
      with assms Inr modified setitem_error[OF Inl] show ?thesis
        by (auto simp: rewrite_entry_def split: if_splits)
    next
      case set: (Inr entry')
      with assms Inr modified show ?thesis by (auto simp: rewrite_entry_def split: if_splits)
    qed
  qed
qed

lemma rewrite_entries_error:
  "rewrite_entries flags entries k = Inl e \<Longrightarrow> e = TypeError \<or> e = KeyError \<or> e = AttributeError"
proof (induction entries arbitrary: k)
  case Nil
  then show ?case by simp
next
  case (Cons entry entries)
  then show ?case by (auto split: sum.splits prod.splits dest: rewrite_entry_error)
qed

lemma rewrite_error:
  assumes "rewrite flags commands = Inl e"
  shows "e = TypeError \<or> e = KeyError \<or> e = AttributeError"
proof (cases "json_iter commands")
  case (Inl a)
  then have "a = TypeError" by (cases commands) auto
  with assms Inl show ?thesis by (simp add: rewrite_def)
next
  case (Inr entries)
  with assms have "rewrite_entries flags entries 0 = Inl e"
    by (simp add: rewrite_def split: sum.splits prod.splits)
  then show ?thesis by (rule rewrite_entries_error)
qed

lemma is_command_object_getitem:
  "is_command_object entry \<Longrightarrow> \<exists>c. getitem entry ''command'' = Inr (JStr c)"
  by (cases entry) (auto split: option.splits json.splits)

lemma rewrite_entries_total:
  "(\<And>entry. entry \<in> set entries \<Longrightarrow> \<exists>entry' b. rewrite_entry flags entry = Inr (entry', b)) \<Longrightarrow>
     \<exists>entries' n. rewrite_entries flags entries k = Inr (entries', n)"
proof (induction entries arbitrary: k)
  case Nil
  show ?case by simp
next
  case (Cons entry entries)
  from Cons.prems obtain entry' b where step: "rewrite_entry flags entry = Inr (entry', b)"
    by (meson list.set_intros(1))
  from Cons.IH[of "if b then k + 1 else k"] Cons.prems obtain entries' n where
    "rewrite_entries flags entries (if b then k + 1 else k) = Inr (entries', n)"
    by (meson list.set_intros(2))
  with step show ?case by simp
qed

lemma rewrite_array_of_command_objects:
  assumes "array_of_command_objects commands"
  shows "\<exists>out n. rewrite flags commands = Inr (out, n)"
proof -
  from assms obtain entries where c: "commands = JArr entries"
    and all: "list_all is_command_object entries"
    by (cases commands) auto
  have "\<exists>entry' b. rewrite_entry flags entry = Inr (entry', b)" if "entry \<in> set entries" for entry
  proof -
    from all that have "is_command_object entry" by (simp add: list_all_iff)
    from is_command_object_getitem[OF this] obtain c where "getitem entry ''command'' = Inr (JStr c)"
      by blast
    from rewrite_entry_of_str[OF this, of flags] show ?thesis by blast
  qed
  from rewrite_entries_total[of entries flags 0, OF this] obtain entries' n where
    "rewrite_entries flags entries 0 = Inr (entries', n)" by blast
  with c show ?thesis by (simp add: rewrite_JArr)
qed

lemma json_len_error: "json_len v = Inl e \<Longrightarrow> e = TypeError"
  by (cases v) auto

lemma json_len_array: "array_of_command_objects v \<Longrightarrow> \<exists>k. json_len v = Inr k"
  by (cases v) auto

section \<open>What the load step rejects\<close>

text \<open>
  C2, as the code has it. Line 23 checks no shape. When \<^verbatim>\<open>json.load\<close> raises, the run ends
  with that exception behind the line \<^verbatim>\<open>Reading ...\<close>, and no file is written. Every
  value \<^verbatim>\<open>json.load\<close> returns goes on to line 25, whatever its shape. A value that is not
  an array of objects with a string under \<^verbatim>\<open>command\<close> is rejected, if at all, behind
  the load: by \<^verbatim>\<open>len\<close> on line 25 with a TypeError, before the loop, or by the loop with
  a TypeError, a KeyError or an AttributeError. On an array of objects with a string under
  \<^verbatim>\<open>command\<close>, neither \<^verbatim>\<open>len\<close> nor the loop raises.
\<close>

theorem load_checks_no_shape:
  assumes "files w input_file = Some t"
  shows "(json_load t = Inl e \<longrightarrow>
            fix_compile_commands input_file output_opt w
              = (Some e, print (''Reading '' @ path_str input_file @ ''...'') w))
         \<and> (json_load t = Inr v \<and> json_len v = Inl e \<longrightarrow>
              e = TypeError \<and> \<not> array_of_command_objects v
              \<and> fix_compile_commands input_file output_opt w
                  = (Some e, print (''Reading '' @ path_str input_file @ ''...'') w))
         \<and> (json_load t = Inr v \<and> json_len v = Inr k \<and> rewrite flags_to_remove v = Inl e \<longrightarrow>
              (e = TypeError \<or> e = KeyError \<or> e = AttributeError)
              \<and> \<not> array_of_command_objects v
              \<and> fix_compile_commands input_file output_opt w
                  = (Some e, print (''Processing '' @ str_nat k @ '' compilation units...'')
                               (print (''Reading '' @ path_str input_file @ ''...'') w)))
         \<and> (json_load t = Inr v \<and> array_of_command_objects v \<longrightarrow>
              (\<exists>k out n. json_len v = Inr k \<and> rewrite flags_to_remove v = Inr (out, n)))"
proof -
  have rd: "open_read (print line w) input_file = Inr t" for line
    using assms by (simp add: open_read_def print_simps)
  have 1: "json_load t = Inl e \<longrightarrow>
            fix_compile_commands input_file output_opt w
              = (Some e, print (''Reading '' @ path_str input_file @ ''...'') w)"
    by (simp add: fix_compile_commands_def Let_def rd)
  have 2: "json_load t = Inr v \<and> json_len v = Inl e \<longrightarrow>
              e = TypeError \<and> \<not> array_of_command_objects v
              \<and> fix_compile_commands input_file output_opt w
                  = (Some e, print (''Reading '' @ path_str input_file @ ''...'') w)"
  proof (intro impI, elim conjE)
    assume l: "json_load t = Inr v" and k: "json_len v = Inl e"
    from k have "e = TypeError" by (rule json_len_error)
    moreover from k json_len_array[of v] have "\<not> array_of_command_objects v" by auto
    moreover from l k have "fix_compile_commands input_file output_opt w
                  = (Some e, print (''Reading '' @ path_str input_file @ ''...'') w)"
      by (simp add: fix_compile_commands_def Let_def rd)
    ultimately show "e = TypeError \<and> \<not> array_of_command_objects v
              \<and> fix_compile_commands input_file output_opt w
                  = (Some e, print (''Reading '' @ path_str input_file @ ''...'') w)"
      by blast
  qed
  have 3: "json_load t = Inr v \<and> json_len v = Inr k \<and> rewrite flags_to_remove v = Inl e \<longrightarrow>
              (e = TypeError \<or> e = KeyError \<or> e = AttributeError)
              \<and> \<not> array_of_command_objects v
              \<and> fix_compile_commands input_file output_opt w
                  = (Some e, print (''Processing '' @ str_nat k @ '' compilation units...'')
                               (print (''Reading '' @ path_str input_file @ ''...'') w))"
  proof (intro impI, elim conjE)
    assume l: "json_load t = Inr v" and k: "json_len v = Inr k"
      and r: "rewrite flags_to_remove v = Inl e"
    from r have "e = TypeError \<or> e = KeyError \<or> e = AttributeError" by (rule rewrite_error)
    moreover from r rewrite_array_of_command_objects[of v flags_to_remove]
    have "\<not> array_of_command_objects v" by auto
    moreover from l k r have "fix_compile_commands input_file output_opt w
                  = (Some e, print (''Processing '' @ str_nat k @ '' compilation units...'')
                               (print (''Reading '' @ path_str input_file @ ''...'') w))"
      by (simp add: fix_compile_commands_def Let_def rd)
    ultimately show "(e = TypeError \<or> e = KeyError \<or> e = AttributeError)
              \<and> \<not> array_of_command_objects v
              \<and> fix_compile_commands input_file output_opt w
                  = (Some e, print (''Processing '' @ str_nat k @ '' compilation units...'')
                               (print (''Reading '' @ path_str input_file @ ''...'') w))"
      by blast
  qed
  have 4: "json_load t = Inr v \<and> array_of_command_objects v \<longrightarrow>
              (\<exists>k out n. json_len v = Inr k \<and> rewrite flags_to_remove v = Inr (out, n))"
    using json_len_array[of v] rewrite_array_of_command_objects[of v flags_to_remove] by blast
  from 1 2 3 4 show ?thesis by blast
qed

text \<open>
  Four databases: text that \<^verbatim>\<open>json.load\<close> cannot parse; the number \<^verbatim>\<open>42\<close>, which
  \<^verbatim>\<open>len\<close> rejects; an array whose one object has no \<^verbatim>\<open>command\<close>, which the loop
  rejects with a KeyError; and the database with the flag, which nothing rejects.
\<close>

theorem load_checks_no_shape_witness:
  "fix_compile_commands compile_commands_path None
       \<lparr>files = [compile_commands_path \<mapsto> Foreign (Inl JSONDecodeError)], stdout = [], stderr = []\<rparr>
     = (Some JSONDecodeError,
        \<lparr>files = [compile_commands_path \<mapsto> Foreign (Inl JSONDecodeError)],
         stdout = [''Reading build/compile_commands.json...''], stderr = []\<rparr>)
   \<and> json_load (Foreign (Inr (JInt 42))) = Inr (JInt 42)
   \<and> json_len (JInt 42) = Inl TypeError
   \<and> \<not> array_of_command_objects (JInt 42)
   \<and> fix_compile_commands compile_commands_path None (world_with (JInt 42))
     = (Some TypeError,
        \<lparr>files = [compile_commands_path \<mapsto> Foreign (Inr (JInt 42))],
         stdout = [''Reading build/compile_commands.json...''], stderr = []\<rparr>)
   \<and> json_load (Foreign (Inr (JArr [JObj [(''file'', JStr ''a.c'')]])))
       = Inr (JArr [JObj [(''file'', JStr ''a.c'')]])
   \<and> json_len (JArr [JObj [(''file'', JStr ''a.c'')]]) = Inr 1
   \<and> rewrite flags_to_remove (JArr [JObj [(''file'', JStr ''a.c'')]]) = Inl KeyError
   \<and> \<not> array_of_command_objects (JArr [JObj [(''file'', JStr ''a.c'')]])
   \<and> fix_compile_commands compile_commands_path None (world_with (JArr [JObj [(''file'', JStr ''a.c'')]]))
     = (Some KeyError,
        \<lparr>files = [compile_commands_path \<mapsto> Foreign (Inr (JArr [JObj [(''file'', JStr ''a.c'')]]))],
         stdout = [''Reading build/compile_commands.json...'', ''Processing 1 compilation units...''],
         stderr = []\<rparr>)
   \<and> json_load (Foreign (Inr with_flag)) = Inr with_flag
   \<and> array_of_command_objects with_flag
   \<and> (\<exists>k out n. json_len with_flag = Inr k \<and> rewrite flags_to_remove with_flag = Inr (out, n))"
proof -
  let ?bad = "\<lparr>files = [compile_commands_path \<mapsto> Foreign (Inl JSONDecodeError)], stdout = [], stderr = []\<rparr>"
  let ?u = "JArr [JObj [(''file'', JStr ''a.c'')]]"
  have s: "path_str compile_commands_path = ''build/compile_commands.json''"
    by (simp add: path_str_def compile_commands_path_def)
  have fa: "files ?bad compile_commands_path = Some (Foreign (Inl JSONDecodeError))" by simp
  have la: "json_load (Foreign (Inl JSONDecodeError)) = Inl JSONDecodeError" by simp
  have fb: "files (world_with v) compile_commands_path = Some (Foreign (Inr v))" for v
    by (simp add: world_with_def)
  have lb: "json_load (Foreign (Inr v)) = Inr v" for v by simp
  have kb: "json_len (JInt 42) = Inl TypeError" by simp
  have kc: "json_len ?u = Inr 1" by simp
  have rc: "rewrite flags_to_remove ?u = Inl KeyError" by (simp add: rewrite_def rewrite_entry_def)
  have sd: "array_of_command_objects with_flag" by (simp add: with_flag_def)
  have a: "fix_compile_commands compile_commands_path None ?bad
             = (Some JSONDecodeError, print ''Reading build/compile_commands.json...'' ?bad)"
    using load_checks_no_shape[OF fa, where e = JSONDecodeError and output_opt = None] la by (simp add: s)
  have b: "\<not> array_of_command_objects (JInt 42)
           \<and> fix_compile_commands compile_commands_path None (world_with (JInt 42))
             = (Some TypeError, print ''Reading build/compile_commands.json...'' (world_with (JInt 42)))"
    using load_checks_no_shape[OF fb[of "JInt 42"], where e = TypeError and v = "JInt 42" and output_opt = None] lb kb by (simp add: s)
  have c: "\<not> array_of_command_objects ?u
           \<and> fix_compile_commands compile_commands_path None (world_with ?u)
             = (Some KeyError, print ''Processing 1 compilation units...''
                  (print ''Reading build/compile_commands.json...'' (world_with ?u)))"
    using load_checks_no_shape[OF fb[of ?u], where e = KeyError and v = ?u and output_opt = None and k = 1] lb kc rc
    by (simp add: s str_nat_digit digit_def)
  have d: "\<exists>k out n. json_len with_flag = Inr k \<and> rewrite flags_to_remove with_flag = Inr (out, n)"
    using load_checks_no_shape[OF fb[of with_flag], where v = with_flag] lb sd by blast
  from a b c d kb kc rc sd show ?thesis by (simp add: print_def world_with_def)
qed

text \<open>
  C2, as the specification states it, fails on the file \<^verbatim>\<open>{}\<close>: it is JSON and not an
  array, the load returns it, the loop has nothing to visit, and the program writes it back
  and exits with status 0.
\<close>

theorem load_accepts_any_shape:
  "\<not> array_of_command_objects (JObj [])
   \<and> json_load (Foreign (Inr (JObj []))) = Inr (JObj [])
   \<and> main (world_with (JObj []))
       = (0, \<lparr>files = [compile_commands_path \<mapsto> Foreign (Inr (JObj [])),
                        backup_path \<mapsto> Dumped (JObj []) 2,
                        compile_commands_path \<mapsto> Dumped (JObj []) 2],
               stdout = [''Reading build/compile_commands.json...'',
                         ''Processing 0 compilation units...'',
                         ''Modified 0 compilation units'',
                         ''Creating backup: build/compile_commands.json.backup'',
                         ''Writing fixed compile_commands.json to build/compile_commands.json...'',
                         ''Done!''],
               stderr = []\<rparr>)"
proof -
  let ?v = "world_with (JObj [])"
  have f: "files ?v compile_commands_path = Some (Foreign (Inr (JObj [])))"
    by (simp add: world_with_def)
  have l: "json_load (Foreign (Inr (JObj []))) = Inr (JObj [])" by simp
  have k: "json_len (JObj []) = Inr 0" by simp
  have rw: "rewrite flags_to_remove (JObj []) = Inr (JObj [], 0)" by (simp add: rewrite_def)
  have there: "path_exists ?v compile_commands_path" using f by (simp add: path_exists_def)
  have "main ?v = (0, snd (fix_compile_commands compile_commands_path None ?v))"
    using there by (simp add: main_def run_in_place[OF f l k rw])
  then show ?thesis
    unfolding run_in_place[OF f l k rw] by (simp add: world_with_def str_nat_digit digit_def)
qed

section \<open>Words and lengths\<close>

lemma takeWhile_not_space_Nil:
  "r = [] \<or> is_space (hd r) \<Longrightarrow> takeWhile (\<lambda>x. \<not> is_space x) r = [] \<and> dropWhile (\<lambda>x. \<not> is_space x) r = r"
  by (cases r) auto

lemma str_split_word:
  assumes "w \<noteq> []" and "\<forall>c \<in> set w. \<not> is_space c" and "r = [] \<or> is_space (hd r)"
  shows "str_split (w @ r) = w # str_split r"
proof -
  from assms(1) obtain c w' where w: "w = c # w'" by (cases w) auto
  with assms(2) have c: "\<not> is_space c" and w': "\<forall>x \<in> set w'. \<not> is_space x" by auto
  from w' have "takeWhile (\<lambda>x. \<not> is_space x) (w' @ r) = w' @ takeWhile (\<lambda>x. \<not> is_space x) r"
    and "dropWhile (\<lambda>x. \<not> is_space x) (w' @ r) = dropWhile (\<lambda>x. \<not> is_space x) r"
    by (simp_all add: takeWhile_append2 dropWhile_append2)
  with takeWhile_not_space_Nil[OF assms(3)] c w show ?thesis by simp
qed

lemma str_split_join:
  "(\<And>w. w \<in> set ws \<Longrightarrow> w \<noteq> [] \<and> (\<forall>c \<in> set w. \<not> is_space c)) \<Longrightarrow>
     str_split (str_join '' '' ws) = ws"
proof (induction "'' ''" ws rule: str_join.induct)
  case 1
  show ?case by simp
next
  case (2 w)
  then have "w \<noteq> []" "\<forall>c \<in> set w. \<not> is_space c" by auto
  from str_split_word[OF this, of "[]"] show ?case by simp
next
  case (3 w v ws)
  then have w: "w \<noteq> []" "\<forall>c \<in> set w. \<not> is_space c" by auto
  have rest: "str_split (str_join '' '' (v # ws)) = v # ws"
    using 3(2) by (intro 3(1)) auto
  have "str_split (w @ CHR '' '' # str_join '' '' (v # ws))
          = w # str_split (CHR '' '' # str_join '' '' (v # ws))"
    using w by (intro str_split_word) (simp_all add: space_is_space)
  also have "\<dots> = w # str_split (str_join '' '' (v # ws))" by (simp add: space_is_space)
  finally show ?case using rest by simp
qed

lemma str_split_normalised:
  "str_split (str_join '' '' (str_split s)) = str_split s"
  by (rule str_split_join) (use str_split_words in blast)

lemma str_replace_scan_length_le:
  "length (str_replace_scan old [] s) \<le> length s"
proof (induction old "[] :: string" s rule: str_replace_scan.induct)
  case (1 old)
  show ?case by simp
next
  case (2 old c cs)
  show ?case
  proof (cases "old \<noteq> [] \<and> prefix old (c # cs)")
    case True
    with 2(1) have "length (str_replace_scan old [] (drop (length old) (c # cs)))
                     \<le> length (drop (length old) (c # cs))" by simp
    with True show ?thesis by simp
  next
    case False
    with 2(2) show ?thesis by auto
  qed
qed

lemma str_replace_scan_shorter:
  "old \<noteq> [] \<Longrightarrow> str_contains old s \<Longrightarrow> length (str_replace_scan old [] s) < length s"
proof (induction s)
  case Nil
  then show ?case by simp
next
  case (Cons c cs)
  show ?case
  proof (cases "prefix old (c # cs)")
    case True
    have "length (str_replace_scan old [] (drop (length old) (c # cs)))
            \<le> length (drop (length old) (c # cs))" by (rule str_replace_scan_length_le)
    also have "\<dots> < length (c # cs)" using Cons.prems(1) by simp
    finally show ?thesis using True Cons.prems(1) by simp
  next
    case False
    with Cons show ?thesis by simp
  qed
qed

lemma str_join_split_length:
  "length (str_join '' '' (str_split s)) \<le> length s
   \<and> (s \<noteq> [] \<and> is_space (hd s) \<longrightarrow> length (str_join '' '' (str_split s)) < length s)"
proof (induction s rule: str_split.induct)
  case 1
  show ?case by simp
next
  case (2 c cs)
  show ?case
  proof (cases "is_space c")
    case True
    with 2(1) show ?thesis by simp
  next
    case False
    let ?w = "c # takeWhile (\<lambda>x. \<not> is_space x) cs"
    let ?rest = "dropWhile (\<lambda>x. \<not> is_space x) cs"
    have len: "length ?w + length ?rest = length (c # cs)"
      using takeWhile_dropWhile_id[of "\<lambda>x. \<not> is_space x" cs]
      by (metis add_Suc length_Cons length_append)
    have split: "str_split (c # cs) = ?w # str_split ?rest" using False by simp
    show ?thesis
    proof (cases "str_split ?rest")
      case Nil
      with split len False show ?thesis by simp
    next
      case (Cons v vs)
      have "?rest \<noteq> []"
      proof
        assume "?rest = []"
        then have "str_split ?rest = []" by (simp only: str_split.simps)
        with Cons show False by simp
      qed
      then have "is_space (hd ?rest)" using hd_dropWhile[of "\<lambda>x. \<not> is_space x" cs] by simp
      with \<open>?rest \<noteq> []\<close> 2(2)[OF False] have "length (str_join '' '' (str_split ?rest)) < length ?rest"
        by simp
      moreover have "length (str_join '' '' (?w # str_split ?rest))
                       = length ?w + 1 + length (str_join '' '' (str_split ?rest))"
        using Cons by simp
      ultimately show ?thesis using split len False by simp
    qed
  qed
qed

lemma str_join_last:
  "ws \<noteq> [] \<Longrightarrow> last ws \<noteq> [] \<Longrightarrow> str_join sep ws \<noteq> [] \<and> last (str_join sep ws) = last (last ws)"
  by (induction sep ws rule: str_join.induct) auto

lemma normalised_ends:
  assumes "str_join '' '' (str_split s) \<noteq> []"
  shows "\<not> is_space (hd (str_join '' '' (str_split s)))
         \<and> \<not> is_space (last (str_join '' '' (str_split s)))"
proof -
  from assms obtain w ws where ws: "str_split s = w # ws" by (cases "str_split s") auto
  then have w: "w \<noteq> []" "\<forall>c \<in> set w. \<not> is_space c"
    using str_split_words[of w s] by auto
  from ws have "last (w # ws) \<in> set (str_split s)" by (metis last_in_set list.distinct(1))
  then have l: "last (w # ws) \<noteq> []" "\<forall>c \<in> set (last (w # ws)). \<not> is_space c"
    using str_split_words by blast+
  from str_join_hd[OF w(1), of "'' ''" ws] w have "\<not> is_space (hd (str_join '' '' (w # ws)))"
    by (metis hd_in_set)
  moreover from str_join_last[of "w # ws" "'' ''"] l
  have "\<not> is_space (last (str_join '' '' (w # ws)))"
    by (metis last_in_set list.distinct(1))
  ultimately show ?thesis using ws by simp
qed

lemma normalised_differs:
  assumes "old \<noteq> []" and "str_contains old s"
  shows "str_join '' '' (str_split (str_replace old [] s)) \<noteq> s"
proof -
  have "length (str_join '' '' (str_split (str_replace old [] s))) \<le> length (str_replace old [] s)"
    using str_join_split_length by blast
  also have "\<dots> < length s" using assms by (simp add: str_replace_def str_replace_scan_shorter)
  finally show ?thesis by auto
qed

section \<open>What the rewrite does to one command\<close>

text \<open>
  C4, as the specification states it, fails on a command that holds no flag and a run of
  two spaces: deleting every flag and collapsing the whitespace runs gives
  \<^verbatim>\<open>gcc -O2 file.c\<close>, and the loop leaves \<^verbatim>\<open>gcc  -O2 file.c\<close> and counts nothing.
\<close>

theorem flag_free_whitespace_not_collapsed:
  "spec_rewrite_command flags_to_remove ''gcc  -O2 file.c'' = ''gcc -O2 file.c''
   \<and> rewrite flags_to_remove (JArr [JObj [(''command'', JStr ''gcc  -O2 file.c'')]])
       = Inr (JArr [JObj [(''command'', JStr ''gcc  -O2 file.c'')]], 0)"
  by (simp add: spec_rewrite_command_def flags_to_remove_def str_replace_def is_space_def
                whitespace_def rewrite_def rewrite_entry_def remove_flag_def)

text \<open>
  C4, as the code has it. An entry whose command is a string is rewritten without an
  exception and counted exactly when its command changed. When the command holds the flag,
  the new command is the command with every occurrence of the flag deleted
  (\<^verbatim>\<open>replace(flag, '')\<close>), split into its words and joined by single spaces: it has
  the words of the flag-free text, no two spaces in a row and no whitespace at either
  end. When the command does not hold the flag, it stays as it is. The example of the
  specification is rewritten as stated, with a count of 1.
\<close>

theorem rewrite_deletes_flag_and_joins_words:
  assumes "flag \<in> set flags_to_remove"
    and "getitem entry ''command'' = Inr (JStr c)"
  shows "(\<exists>entry' r.
            rewrite_entry flags_to_remove entry = Inr (entry', r \<noteq> c)
            \<and> getitem entry' ''command'' = Inr (JStr r)
            \<and> (str_contains flag c \<longrightarrow>
                  r = str_join '' '' (str_split (str_replace flag [] c))
                  \<and> str_split r = str_split (str_replace flag [] c)
                  \<and> \<not> str_contains ''  '' r
                  \<and> (r = [] \<or> (\<not> is_space (hd r) \<and> \<not> is_space (last r))))
            \<and> (\<not> str_contains flag c \<longrightarrow> r = c))
         \<and> rewrite flags_to_remove
              (JArr [JObj [(''command'', JStr ''gcc -O2 -mno-direct-extern-access -Wall file.c'')]])
             = Inr (JArr [JObj [(''command'', JStr ''gcc -O2 -Wall file.c'')]], 1)"
proof -
  from assms(1) have flags: "flags_to_remove = [flag]" by (simp add: flags_to_remove_def)
  let ?r = "if str_contains flag c then str_join '' '' (str_split (str_replace flag [] c)) else c"
  have "remove_flags flags_to_remove (JStr c) = Inr (JStr ?r)"
    unfolding flags by (simp add: remove_flag_str)
  with rewrite_entry_of_str[OF assms(2), of flags_to_remove]
  obtain entry' where step: "rewrite_entry flags_to_remove entry = Inr (entry', ?r \<noteq> c)"
    "getitem entry' ''command'' = Inr (JStr ?r)"
    by auto
  have "str_contains flag c \<longrightarrow>
          ?r = str_join '' '' (str_split (str_replace flag [] c))
          \<and> str_split ?r = str_split (str_replace flag [] c)
          \<and> \<not> str_contains ''  '' ?r
          \<and> (?r = [] \<or> (\<not> is_space (hd ?r) \<and> \<not> is_space (last ?r)))"
    using normalised_ends[of "str_replace flag [] c"]
    by (auto simp: str_split_normalised normalised_no_double_space)
  moreover have "\<not> str_contains flag c \<longrightarrow> ?r = c" by simp
  ultimately have "\<exists>entry' r.
            rewrite_entry flags_to_remove entry = Inr (entry', r \<noteq> c)
            \<and> getitem entry' ''command'' = Inr (JStr r)
            \<and> (str_contains flag c \<longrightarrow>
                  r = str_join '' '' (str_split (str_replace flag [] c))
                  \<and> str_split r = str_split (str_replace flag [] c)
                  \<and> \<not> str_contains ''  '' r
                  \<and> (r = [] \<or> (\<not> is_space (hd r) \<and> \<not> is_space (last r))))
            \<and> (\<not> str_contains flag c \<longrightarrow> r = c)"
    using step by blast
  moreover have "rewrite flags_to_remove
              (JArr [JObj [(''command'', JStr ''gcc -O2 -mno-direct-extern-access -Wall file.c'')]])
             = Inr (JArr [JObj [(''command'', JStr ''gcc -O2 -Wall file.c'')]], 1)"
    using rewrite_with_flag by (simp add: with_flag_def without_flag_def)
  ultimately show ?thesis by blast
qed

text \<open>
  A command with the flag, leading spaces and a run of three spaces, and a command without
  the flag that keeps its runs of spaces.
\<close>

theorem rewrite_deletes_flag_and_joins_words_witness:
  "''-mno-direct-extern-access'' \<in> set flags_to_remove
   \<and> str_contains ''-mno-direct-extern-access'' ''  cc -mno-direct-extern-access   -c a.c''
   \<and> rewrite_entry flags_to_remove
        (JObj [(''command'', JStr ''  cc -mno-direct-extern-access   -c a.c''), (''file'', JStr ''a.c'')])
       = Inr (JObj [(''command'', JStr ''cc -c a.c''), (''file'', JStr ''a.c'')], True)
   \<and> \<not> str_contains ''-mno-direct-extern-access'' ''cc  -c  b.c''
   \<and> rewrite_entry flags_to_remove (JObj [(''command'', JStr ''cc  -c  b.c'')])
       = Inr (JObj [(''command'', JStr ''cc  -c  b.c'')], False)"
proof -
  let ?flag = "''-mno-direct-extern-access''"
  let ?a = "JObj [(''command'', JStr ''  cc -mno-direct-extern-access   -c a.c''), (''file'', JStr ''a.c'')]"
  let ?b = "JObj [(''command'', JStr ''cc  -c  b.c'')]"
  have 1: "?flag \<in> set flags_to_remove" by (simp add: flags_to_remove_def)
  have a: "getitem ?a ''command'' = Inr (JStr ''  cc -mno-direct-extern-access   -c a.c'')" by simp
  have b: "getitem ?b ''command'' = Inr (JStr ''cc  -c  b.c'')" by simp
  have ca: "str_contains ?flag ''  cc -mno-direct-extern-access   -c a.c''" by simp
  have cb: "\<not> str_contains ?flag ''cc  -c  b.c''" by simp
  from rewrite_deletes_flag_and_joins_words[OF 1 a] ca
  obtain entry' r where ra: "rewrite_entry flags_to_remove ?a = Inr (entry', r \<noteq> ''  cc -mno-direct-extern-access   -c a.c'')"
    "r = str_join '' '' (str_split (str_replace ?flag [] ''  cc -mno-direct-extern-access   -c a.c''))"
    by blast
  from rewrite_deletes_flag_and_joins_words[OF 1 b] cb
  obtain entry'' r' where rb: "rewrite_entry flags_to_remove ?b = Inr (entry'', r' \<noteq> ''cc  -c  b.c'')"
    "r' = ''cc  -c  b.c''"
    by blast
  have ea: "rewrite_entry flags_to_remove ?a
              = Inr (JObj [(''command'', JStr ''cc -c a.c''), (''file'', JStr ''a.c'')], True)"
    by (simp add: rewrite_entry_def remove_flag_def flags_to_remove_def
                  str_replace_def is_space_def whitespace_def)
  have eb: "rewrite_entry flags_to_remove ?b = Inr (?b, False)"
    by (simp add: rewrite_entry_def remove_flag_def flags_to_remove_def)
  from ra rb 1 ca cb ea eb show ?thesis by blast
qed

section \<open>Rewriting twice\<close>

lemma rewrite_entry_again:
  assumes "rewrite_entry flags entry = Inr (entry', changed)"
    and "\<And>c flag. getitem entry' ''command'' = Inr (JStr c) \<Longrightarrow> flag \<in> set flags \<Longrightarrow> \<not> str_contains flag c"
  shows "rewrite_entry flags entry' = Inr (entry', False)"
proof -
  from rewrite_entry_Inr[OF assms(1)] obtain kvs original_command modified_command where
    e: "entry = JObj kvs" "map_of kvs ''command'' = Some original_command"
    and m: "remove_flags flags original_command = Inr modified_command"
    and c: "changed = (modified_command \<noteq> original_command)"
    and e': "entry' = (if changed then JObj (dict_set ''command'' modified_command kvs) else entry)"
    by blast
  show ?thesis
  proof (cases changed)
    case False
    with c e' e m show ?thesis by (simp add: rewrite_entry_def)
  next
    case True
    with c remove_flags_cases[OF m] obtain r where r: "modified_command = JStr r" by auto
    from True e' r have get: "getitem entry' ''command'' = Inr (JStr r)"
      by (simp add: map_of_dict_set_same)
    have "remove_flags flags (JStr r) = Inr (JStr r)"
      using assms(2)[OF get] by (intro remove_flags_absent)
    with True e' r show ?thesis by (simp add: rewrite_entry_def map_of_dict_set_same)
  qed
qed

lemma rewrite_Inr:
  assumes "rewrite flags x = Inr (y, n)"
  shows "\<exists>entries entries'. json_iter x = Inr entries \<and> json_iter y = Inr entries'
           \<and> rewrite_entries flags entries 0 = Inr (entries', n)
           \<and> (case y of JArr _ \<Rightarrow> True | _ \<Rightarrow> entries' = [])"
proof -
  from assms obtain entries entries' where it: "json_iter x = Inr entries"
    and loop: "rewrite_entries flags entries 0 = Inr (entries', n)"
    and y: "y = (case x of JArr _ \<Rightarrow> JArr entries' | _ \<Rightarrow> x)"
    by (auto simp: rewrite_def split: sum.splits prod.splits)
  from rewrite_entries_Inr[OF loop]
  have steps: "list_all2 (\<lambda>e e'. \<exists>b. rewrite_entry flags e = Inr (e', b)) entries entries'"
    by blast
  have objs: "\<exists>kvs. e = JObj kvs" if "e \<in> set entries" for e
  proof -
    from that steps obtain e' b where "rewrite_entry flags e = Inr (e', b)"
      by (auto simp: list_all2_conv_all_nth in_set_conv_nth)
    from rewrite_entry_Inr[OF this] show ?thesis by blast
  qed
  show ?thesis
  proof (cases x)
    case (JArr es)
    with it y loop show ?thesis by auto
  next
    case (JObj kvs)
    have "kvs = []"
    proof (cases kvs)
      case (Cons kv kvs')
      with JObj it have "JStr (fst kv) \<in> set entries" by auto
      from objs[OF this] show ?thesis by simp
    qed simp
    with JObj it y loop show ?thesis by auto
  next
    case (JStr s)
    have "s = []"
    proof (cases s)
      case (Cons c s')
      with JStr it have "JStr [c] \<in> set entries" by auto
      from objs[OF this] show ?thesis by simp
    qed simp
    with JStr it y loop show ?thesis by auto
  qed (use it in simp_all)
qed

lemma rewrite_fixed_iff:
  assumes "json_iter y = Inr entries'" and "case y of JArr _ \<Rightarrow> True | _ \<Rightarrow> entries' = []"
  shows "rewrite flags y = Inr (y, 0) \<longleftrightarrow> rewrite_entries flags entries' 0 = Inr (entries', 0)"
proof (cases y)
  case (JArr es)
  with assms(1) show ?thesis by (auto simp: rewrite_def split: sum.splits prod.splits)
next
  case (JObj kvs)
  with assms show ?thesis by (simp add: rewrite_def)
next
  case (JStr s)
  with assms show ?thesis by (simp add: rewrite_def)
qed (use assms in simp_all)

text \<open>
  C5, as the specification states it, fails where deleting the flag joins the text
  before and behind it into a new occurrence of the flag: the first pass leaves a command
  that holds the flag, and the second pass changes it again.
\<close>

theorem rewrite_twice_differs:
  "rewrite flags_to_remove
     (JArr [JObj [(''command'', JStr ''cc -mno-direct-e-mno-direct-extern-accessxtern-access a.c'')]])
     = Inr (JArr [JObj [(''command'', JStr ''cc -mno-direct-extern-access a.c'')]], 1)
   \<and> rewrite flags_to_remove (JArr [JObj [(''command'', JStr ''cc -mno-direct-extern-access a.c'')]])
     = Inr (JArr [JObj [(''command'', JStr ''cc a.c'')]], 1)"
  by (simp add: rewrite_def rewrite_entry_def remove_flag_def flags_to_remove_def
                str_replace_def is_space_def whitespace_def)

text \<open>
  C5, as the code has it. When the rewrite of \<open>x\<close> succeeds with the result \<open>y\<close>,
  rewriting \<open>y\<close> gives \<open>y\<close> again, with a count of 0, exactly when no string under
  \<^verbatim>\<open>command\<close> in \<open>y\<close> holds a flag.
\<close>

theorem rewrite_twice_same_iff_no_flag_left:
  assumes "rewrite flags_to_remove x = Inr (y, n)"
  shows "\<exists>entries'. json_iter y = Inr entries'
           \<and> (rewrite flags_to_remove y = Inr (y, 0) \<longleftrightarrow>
                (\<forall>entry \<in> set entries'. \<forall>flag \<in> set flags_to_remove. \<forall>c.
                    getitem entry ''command'' = Inr (JStr c) \<longrightarrow> \<not> str_contains flag c))"
proof -
  from rewrite_Inr[OF assms] obtain entries entries' where
    it: "json_iter y = Inr entries'"
    and loop: "rewrite_entries flags_to_remove entries 0 = Inr (entries', n)"
    and shape: "case y of JArr _ \<Rightarrow> True | _ \<Rightarrow> entries' = []"
    by blast
  from rewrite_entries_Inr[OF loop]
  have steps: "list_all2 (\<lambda>e e'. \<exists>b. rewrite_entry flags_to_remove e = Inr (e', b)) entries entries'"
    by blast
  let ?clean = "\<forall>entry \<in> set entries'. \<forall>flag \<in> set flags_to_remove. \<forall>c.
                    getitem entry ''command'' = Inr (JStr c) \<longrightarrow> \<not> str_contains flag c"
  have "rewrite_entries flags_to_remove entries' 0 = Inr (entries', 0) \<longleftrightarrow> ?clean"
  proof
    assume clean: ?clean
    have "rewrite_entry flags_to_remove e' = Inr (e', False)" if "e' \<in> set entries'" for e'
    proof -
      from that steps obtain e b where "rewrite_entry flags_to_remove e = Inr (e', b)"
        by (auto simp: list_all2_conv_all_nth in_set_conv_nth)
      then show ?thesis using clean that by (intro rewrite_entry_again[of _ e e' b]) auto
    qed
    then show "rewrite_entries flags_to_remove entries' 0 = Inr (entries', 0)"
      by (rule rewrite_entries_fixed)
  next
    assume fixed: "rewrite_entries flags_to_remove entries' 0 = Inr (entries', 0)"
    from rewrite_entries_Inr[OF fixed]
    have same: "list_all2 (\<lambda>e e'. \<exists>b. rewrite_entry flags_to_remove e = Inr (e', b)) entries' entries'"
      by blast
    show ?clean
    proof (intro ballI allI impI)
      fix entry flag c
      assume entry: "entry \<in> set entries'" and flag: "flag \<in> set flags_to_remove"
        and get: "getitem entry ''command'' = Inr (JStr c)"
      from flag have flags: "flags_to_remove = [flag]" "flag \<noteq> []"
        by (auto simp: flags_to_remove_def)
      from same entry obtain b where b: "rewrite_entry flags_to_remove entry = Inr (entry, b)"
        by (auto simp: list_all2_conv_all_nth in_set_conv_nth)
      from rewrite_entry_of_str[OF get, of flags_to_remove] obtain entry' r where
        r: "remove_flags flags_to_remove (JStr c) = Inr (JStr r)"
        and step: "rewrite_entry flags_to_remove entry = Inr (entry', r \<noteq> c)"
        and get': "getitem entry' ''command'' = Inr (JStr r)"
        by blast
      from b step get get' have "r = c" by simp
      show "\<not> str_contains flag c"
      proof
        assume "str_contains flag c"
        from r have "remove_flags [flag] (JStr c) = Inr (JStr r)" unfolding flags(1) .
        with \<open>str_contains flag c\<close> have "r = str_join '' '' (str_split (str_replace flag [] c))"
          by (simp add: remove_flag_str)
        with normalised_differs[OF flags(2) \<open>str_contains flag c\<close>] \<open>r = c\<close> show False by simp
      qed
    qed
  qed
  with rewrite_fixed_iff[OF it shape, of flags_to_remove] it show ?thesis by blast
qed

text \<open>The example of the specification: its rewritten command holds no flag.\<close>

theorem rewrite_twice_same_iff_no_flag_left_witness:
  "rewrite flags_to_remove with_flag = Inr (without_flag, 1)
   \<and> json_iter without_flag = Inr [JObj [(''command'', JStr ''gcc -O2 -Wall file.c'')]]
   \<and> flags_to_remove = [''-mno-direct-extern-access'']
   \<and> \<not> str_contains ''-mno-direct-extern-access'' ''gcc -O2 -Wall file.c''
   \<and> rewrite flags_to_remove without_flag = Inr (without_flag, 0)"
proof -
  from rewrite_twice_same_iff_no_flag_left[OF rewrite_with_flag] obtain entries' where
    it: "json_iter without_flag = Inr entries'"
    and iff: "rewrite flags_to_remove without_flag = Inr (without_flag, 0) \<longleftrightarrow>
                (\<forall>entry \<in> set entries'. \<forall>flag \<in> set flags_to_remove. \<forall>c.
                    getitem entry ''command'' = Inr (JStr c) \<longrightarrow> \<not> str_contains flag c)"
    by blast
  from it have es: "entries' = [JObj [(''command'', JStr ''gcc -O2 -Wall file.c'')]]"
    by (simp add: without_flag_def)
  have "\<forall>entry \<in> set entries'. \<forall>flag \<in> set flags_to_remove. \<forall>c.
           getitem entry ''command'' = Inr (JStr c) \<longrightarrow> \<not> str_contains flag c"
    unfolding es by (simp add: flags_to_remove_def)
  with iff have "rewrite flags_to_remove without_flag = Inr (without_flag, 0)" by blast
  moreover have "\<not> str_contains ''-mno-direct-extern-access'' ''gcc -O2 -Wall file.c''" by simp
  ultimately show ?thesis using rewrite_with_flag it es by (simp add: flags_to_remove_def)
qed

end
